theory Spec2Isabelle
  imports Main "HOL-Library.Word"
begin

unbundle bit_operations_syntax

section \<open>util/hashable.hpp: the 128-bit hash\<close>

text \<open>
  \<^verbatim>\<open>value_t\<close> is \<^verbatim>\<open>std::array<size_t, 2>\<close>: the pair \<open>(value[0], value[1])\<close> of two
  64-bit words. The code keeps the high half in \<open>value[0]\<close> and the low half in \<open>value[1]\<close>.
\<close>

type_synonym value_t = "64 word \<times> 64 word"

definition default_seed :: value_t where
  "default_seed = (0x6C62272E07BB0142, 0x62B821756295C58D)"

definition prime :: value_t where
  "prime = (0x0000000001000000, 0x000000000000013B)"

text \<open>
  The compiler intrinsic \<^verbatim>\<open>_umul128(a, b, &hi)\<close>: the full 128-bit product of two unsigned
  64-bit words; it returns the low half and stores the high half through the pointer.
  The model returns the pair \<open>(low, high)\<close>.
\<close>

definition umul128 :: "64 word \<Rightarrow> 64 word \<Rightarrow> 64 word \<times> 64 word" where
  "umul128 a b = (let p = unat a * unat b in (word_of_nat p, word_of_nat (p div 2 ^ 64)))"

text \<open>One round of the loop body of \<^verbatim>\<open>hash_t::operator<<\<close>, for one byte of the item.\<close>

definition hash_byte :: "value_t \<Rightarrow> 8 word \<Rightarrow> value_t" where
  "hash_byte val byte =
     (let v1 = snd val XOR ucast byte;
          ha = fst val; la = v1;
          hb = fst prime; lb = snd prime;
          (lo, hi) = umul128 la lb;
          v0 = hi + ha * lb;
          v0 = v0 + la * hb
      in (v0, lo))"

text \<open>\<^verbatim>\<open>operator<<\<close> on an item given as its array of bytes.\<close>

definition hash_append :: "value_t \<Rightarrow> 8 word list \<Rightarrow> value_t" where
  "hash_append val bytes = foldl hash_byte val bytes"

text \<open>The state read as one 128-bit unsigned integer, \<open>value[0]\<close> the high half.\<close>

definition as_nat128 :: "value_t \<Rightarrow> nat" where
  "as_nat128 val = 2 ^ 64 * unat (fst val) + unat (snd val)"

section \<open>amd64/emulator.cpp: the register file\<close>

subsection \<open>Memory and \<^verbatim>\<open>memcpy\<close> on a 64-bit local\<close>

text \<open>
  The emulator object is addressed as raw bytes (\<^verbatim>\<open>(uint8_t*) this + off\<close>), so the model is
  a byte-addressed memory over 64-bit addresses; the object lives at the address \<open>this\<close>.
  amd64 is little-endian: byte \<open>k\<close> of a 64-bit value holds its bits \<open>8k .. 8k+7\<close>.
\<close>

type_synonym memory = "64 word \<Rightarrow> 8 word"

text \<open>\<^verbatim>\<open>memcpy(dst, &value, n)\<close>: the first \<open>n\<close> bytes of the local go to \<open>dst, dst+1, ...\<close>\<close>

fun memcpy_to :: "memory \<Rightarrow> 64 word \<Rightarrow> 64 word \<Rightarrow> nat \<Rightarrow> memory" where
  "memcpy_to m dst val 0 = m"
| "memcpy_to m dst val (Suc n) = memcpy_to (m(dst := ucast val)) (dst + 1) (drop_bit 8 val) n"

text \<open>
  \<^verbatim>\<open>memcpy(&value, src, n)\<close>: the first \<open>n\<close> bytes of the local are replaced by the bytes at
  \<open>src, src+1, ...\<close>; the bytes of the local beyond \<open>n\<close> keep what they held.
\<close>

fun memcpy_from :: "memory \<Rightarrow> 64 word \<Rightarrow> nat \<Rightarrow> 64 word \<Rightarrow> 64 word" where
  "memcpy_from m src 0 val = val"
| "memcpy_from m src (Suc n) val =
     ucast (m src) OR push_bit 8 (memcpy_from m (src + 1) n (drop_bit 8 val))"

subsection \<open>Register identifiers and the layout of the object\<close>

text \<open>
  \<^verbatim>\<open>x86_reg\<close> is the register enumeration of the disassembler. \<^verbatim>\<open>emulator::resolve\<close> tells
  apart the fifteen constants below; every other enumerator takes the \<^verbatim>\<open>default\<close> branch
  and is kept here by its number.
\<close>

datatype x86_reg =
    X86_REG_RAX | X86_REG_RBP | X86_REG_RBX | X86_REG_RCX | X86_REG_RDI
  | X86_REG_RDX | X86_REG_RSI | X86_REG_R8 | X86_REG_R9 | X86_REG_R10
  | X86_REG_R11 | X86_REG_R12 | X86_REG_R13 | X86_REG_R14 | X86_REG_R15
  | X86_REG_other nat

text \<open>The fifteen general-purpose hardware registers that \<^verbatim>\<open>invoke\<close> exchanges.\<close>

datatype gpr = rax | rbx | rcx | rdx | rsi | rdi | rbp
  | r8 | r9 | r10 | r11 | r12 | r13 | r14 | r15

text \<open>
  The data members of \<^verbatim>\<open>struct emulator\<close> that the code names: \<^verbatim>\<open>__rsp\<close>, \<^verbatim>\<open>__rip\<close>
  (written \<open>emu_rsp\<close>, \<open>emu_rip\<close> here), the slots \<^verbatim>\<open>v_rax\<close> ... \<^verbatim>\<open>v_r15\<close> and \<^verbatim>\<open>v_rflags\<close>.
\<close>

datatype field = emu_rsp | emu_rip | v gpr | v_rflags

abbreviation "v_rax \<equiv> v rax"
abbreviation "v_rbx \<equiv> v rbx"
abbreviation "v_rcx \<equiv> v rcx"
abbreviation "v_rdx \<equiv> v rdx"
abbreviation "v_rsi \<equiv> v rsi"
abbreviation "v_rdi \<equiv> v rdi"
abbreviation "v_rbp \<equiv> v rbp"
abbreviation "v_r8 \<equiv> v r8"
abbreviation "v_r9 \<equiv> v r9"
abbreviation "v_r10 \<equiv> v r10"
abbreviation "v_r11 \<equiv> v r11"
abbreviation "v_r12 \<equiv> v r12"
abbreviation "v_r13 \<equiv> v r13"
abbreviation "v_r14 \<equiv> v r14"
abbreviation "v_r15 \<equiv> v r15"

text \<open>
  The declaration of the struct (emulator.hpp) is not part of the sources, so its layout
  is a parameter: \<^verbatim>\<open>reserved_stack_size\<close> (the constant \<^verbatim>\<open>sd\<close> of emulator.cpp), the byte
  offset of every named member, and \<^verbatim>\<open>sizeof(emulator)\<close>.
\<close>

record layout =
  reserved_stack_size :: nat
  offset_of :: "field \<Rightarrow> nat"
  size_of :: nat

text \<open>
  What C++ gives for any such struct: the reserved stack is the first member (the assembly
  of \<^verbatim>\<open>invoke\<close> takes \<^verbatim>\<open>this + sd\<close> as its end), every named member is an 8-byte object
  after it and inside the struct, two members never overlap, and offsets fit the
  \<^verbatim>\<open>int32_t\<close> that \<^verbatim>\<open>resolve\<close> returns.
\<close>

definition wf_layout :: "layout \<Rightarrow> bool" where
  "wf_layout L \<longleftrightarrow>
     size_of L < 2 ^ 31 \<and>
     (\<forall>f. reserved_stack_size L \<le> offset_of L f \<and> offset_of L f + 8 \<le> size_of L) \<and>
     (\<forall>f g. f \<noteq> g \<longrightarrow> offset_of L f + 8 \<le> offset_of L g \<or> offset_of L g + 8 \<le> offset_of L f)"

text \<open>
  The register resolver \<^verbatim>\<open>x86::resolve_mapping\<close> is an external collaborator, likewise a
  parameter: it gives the base register, the byte offset inside the base register and
  the width in bytes.
\<close>

type_synonym resolver = "x86_reg \<Rightarrow> x86_reg \<times> nat \<times> nat"

subsection \<open>\<^verbatim>\<open>resolve\<close>, \<^verbatim>\<open>set\<close> and \<^verbatim>\<open>get\<close>\<close>

text \<open>
  Modelled from the spec: the macro \<^verbatim>\<open>unreachable()\<close> of io/asserts.hpp is not part of the
  sources; reaching it is the fatal, non-recoverable contract violation of the spec
  (immediate abnormal termination with a diagnostic), the outcome \<open>Unreachable\<close>.
  \<open>Out_of_bounds\<close> is a \<^verbatim>\<open>memcpy\<close> of more than the eight bytes of the 64-bit local:
  undefined behaviour in C++, which the code does not check for.
\<close>

datatype fault = Unreachable | Out_of_bounds

text \<open>The \<^verbatim>\<open>switch\<close> of \<^verbatim>\<open>resolve\<close>, in the order of the source.\<close>

fun slot_base :: "x86_reg \<Rightarrow> field option" where
  "slot_base X86_REG_RAX = Some v_rax"
| "slot_base X86_REG_RBP = Some v_rbp"
| "slot_base X86_REG_RBX = Some v_rbx"
| "slot_base X86_REG_RCX = Some v_rcx"
| "slot_base X86_REG_RDI = Some v_rdi"
| "slot_base X86_REG_RDX = Some v_rdx"
| "slot_base X86_REG_RSI = Some v_rsi"
| "slot_base X86_REG_R8 = Some v_r8"
| "slot_base X86_REG_R9 = Some v_r9"
| "slot_base X86_REG_R10 = Some v_r10"
| "slot_base X86_REG_R11 = Some v_r11"
| "slot_base X86_REG_R12 = Some v_r12"
| "slot_base X86_REG_R13 = Some v_r13"
| "slot_base X86_REG_R14 = Some v_r14"
| "slot_base X86_REG_R15 = Some v_r15"
| "slot_base (X86_REG_other n) = None"

text \<open>Conversion to \<^verbatim>\<open>int32_t\<close> and to \<^verbatim>\<open>uint8_t\<close>, the wrap-around written out.\<close>

definition to_int32 :: "int \<Rightarrow> int" where
  "to_int32 x = (x + 2 ^ 31) mod 2 ^ 32 - 2 ^ 31"

definition to_uint8 :: "nat \<Rightarrow> nat" where
  "to_uint8 n = n mod 256"

definition resolve :: "layout \<Rightarrow> resolver \<Rightarrow> x86_reg \<Rightarrow> fault + (int \<times> nat)" where
  "resolve L rm reg =
     (case rm reg of (base_reg, offset, sz) \<Rightarrow>
        (case slot_base base_reg of
           None \<Rightarrow> Inl Unreachable
         | Some base \<Rightarrow> Inr (to_int32 (int (offset_of L base) + int offset), to_uint8 sz)))"

text \<open>
  \<^verbatim>\<open>set\<close> and \<^verbatim>\<open>get\<close> (the names \<open>set\<close> and \<open>get\<close> are taken in HOL). \<^verbatim>\<open>set\<close> returns the
  object, here the memory it lives in; \<^verbatim>\<open>get\<close> returns the value, and the memory with it
  so that its effect on the object can be stated.
\<close>

definition emulator_set ::
  "layout \<Rightarrow> resolver \<Rightarrow> 64 word \<Rightarrow> x86_reg \<Rightarrow> 64 word \<Rightarrow> memory \<Rightarrow> fault + memory" where
  "emulator_set L rm this reg val m =
     (case resolve L rm reg of
        Inl e \<Rightarrow> Inl e
      | Inr (off, sz) \<Rightarrow>
          if 8 < sz then Inl Out_of_bounds
          else Inr (memcpy_to m (this + word_of_int off) val sz))"

definition emulator_get ::
  "layout \<Rightarrow> resolver \<Rightarrow> 64 word \<Rightarrow> x86_reg \<Rightarrow> memory \<Rightarrow> fault + (64 word \<times> memory)" where
  "emulator_get L rm this reg m =
     (case resolve L rm reg of
        Inl e \<Rightarrow> Inl e
      | Inr (off, sz) \<Rightarrow>
          if 8 < sz then Inl Out_of_bounds
          else Inr (memcpy_from m (this + word_of_int off) sz 0, m))"

section \<open>amd64/emulator.cpp: \<^verbatim>\<open>invoke\<close>\<close>

subsection \<open>The machine that runs the assembly block\<close>

text \<open>
  The hardware state that the block of \<^verbatim>\<open>invoke\<close> touches: the fifteen general-purpose
  registers and the stack pointer, the flags register, and the memory (in which the
  emulator object lives, at \<open>this\<close>).
\<close>

datatype reg64 = G gpr | RSP

abbreviation "RAX \<equiv> G rax"
abbreviation "RBX \<equiv> G rbx"
abbreviation "RCX \<equiv> G rcx"
abbreviation "RDX \<equiv> G rdx"
abbreviation "RSI \<equiv> G rsi"
abbreviation "RDI \<equiv> G rdi"
abbreviation "RBP \<equiv> G rbp"
abbreviation "R8 \<equiv> G r8"
abbreviation "R9 \<equiv> G r9"
abbreviation "R10 \<equiv> G r10"
abbreviation "R11 \<equiv> G r11"
abbreviation "R12 \<equiv> G r12"
abbreviation "R13 \<equiv> G r13"
abbreviation "R14 \<equiv> G r14"
abbreviation "R15 \<equiv> G r15"

record machine =
  regs :: "reg64 \<Rightarrow> 64 word"
  rflags :: "64 word"
  mem :: memory

text \<open>A 64-bit load and store, little-endian, by the byte copies above.\<close>

definition load64 :: "memory \<Rightarrow> 64 word \<Rightarrow> 64 word" where
  "load64 m a = memcpy_from m a 8 0"

definition store64 :: "memory \<Rightarrow> 64 word \<Rightarrow> 64 word \<Rightarrow> memory" where
  "store64 m a val = memcpy_to m a val 8"

text \<open>A memory operand \<open>[base + displacement]\<close> and its effective address.\<close>

datatype mem_operand = At reg64 "64 word"

fun ea :: "machine \<Rightarrow> mem_operand \<Rightarrow> 64 word" where
  "ea s (At b d) = regs s b + d"

text \<open>
  What the block leaves to its surroundings is a parameter:
  \<^item> \<open>native_code\<close>: the native code at an address, as the machine state in which it
    returns to its caller (its \<^verbatim>\<open>ret\<close> done), \<open>None\<close> when it never returns;
  \<^item> \<open>return_address\<close>: the address of the instruction after the \<^verbatim>\<open>call\<close>;
  \<^item> \<open>add_flags old a b\<close>: the flags after \<^verbatim>\<open>add\<close> of \<open>a\<close> and \<open>b\<close>;
  \<^item> \<open>pushfq_image\<close>: the image of the flags that \<^verbatim>\<open>pushfq\<close> stores;
  \<^item> \<open>popfq_flags old val\<close>: the flags after \<^verbatim>\<open>popfq\<close> of the value \<open>val\<close>.
\<close>

record platform =
  native_code :: "64 word \<Rightarrow> machine \<Rightarrow> machine option"
  return_address :: "64 word"
  add_flags :: "64 word \<Rightarrow> 64 word \<Rightarrow> 64 word \<Rightarrow> 64 word"
  pushfq_image :: "64 word \<Rightarrow> 64 word"
  popfq_flags :: "64 word \<Rightarrow> 64 word \<Rightarrow> 64 word"

text \<open>The instruction forms of the block (destination first, as the source writes them).\<close>

datatype instr =
    MOV_rr reg64 reg64
  | MOV_ri reg64 "64 word"
  | ADD_ri reg64 "64 word"
  | MOV_mr mem_operand reg64
  | MOV_rm reg64 mem_operand
  | XCHG_rm reg64 mem_operand
  | PUSHFQ
  | PUSH_m mem_operand
  | POPFQ
  | POP_m mem_operand
  | CALL_m mem_operand

text \<open>
  One instruction. A \<^verbatim>\<open>push\<close> of a memory operand addressed through \<^verbatim>\<open>rsp\<close> computes the
  address before it decrements \<^verbatim>\<open>rsp\<close>; a \<^verbatim>\<open>pop\<close> into one computes it after it has
  incremented \<^verbatim>\<open>rsp\<close>. A \<^verbatim>\<open>call\<close> reads its target, pushes the return address and runs
  the native code at the target until that returns.
\<close>

fun exec_instr :: "platform \<Rightarrow> instr \<Rightarrow> machine \<Rightarrow> machine option" where
  "exec_instr P (MOV_rr d s) \<sigma> = Some (\<sigma>\<lparr>regs := (regs \<sigma>)(d := regs \<sigma> s)\<rparr>)"
| "exec_instr P (MOV_ri d i) \<sigma> = Some (\<sigma>\<lparr>regs := (regs \<sigma>)(d := i)\<rparr>)"
| "exec_instr P (ADD_ri d i) \<sigma> =
     Some (\<sigma>\<lparr>regs := (regs \<sigma>)(d := regs \<sigma> d + i),
              rflags := add_flags P (rflags \<sigma>) (regs \<sigma> d) i\<rparr>)"
| "exec_instr P (MOV_mr a s) \<sigma> = Some (\<sigma>\<lparr>mem := store64 (mem \<sigma>) (ea \<sigma> a) (regs \<sigma> s)\<rparr>)"
| "exec_instr P (MOV_rm d a) \<sigma> = Some (\<sigma>\<lparr>regs := (regs \<sigma>)(d := load64 (mem \<sigma>) (ea \<sigma> a))\<rparr>)"
| "exec_instr P (XCHG_rm r a) \<sigma> =
     Some (\<sigma>\<lparr>regs := (regs \<sigma>)(r := load64 (mem \<sigma>) (ea \<sigma> a)),
              mem := store64 (mem \<sigma>) (ea \<sigma> a) (regs \<sigma> r)\<rparr>)"
| "exec_instr P PUSHFQ \<sigma> =
     (let sp = regs \<sigma> RSP - 8
      in Some (\<sigma>\<lparr>regs := (regs \<sigma>)(RSP := sp),
                 mem := store64 (mem \<sigma>) sp (pushfq_image P (rflags \<sigma>))\<rparr>))"
| "exec_instr P (PUSH_m a) \<sigma> =
     (let val = load64 (mem \<sigma>) (ea \<sigma> a);
          sp = regs \<sigma> RSP - 8
      in Some (\<sigma>\<lparr>regs := (regs \<sigma>)(RSP := sp), mem := store64 (mem \<sigma>) sp val\<rparr>))"
| "exec_instr P POPFQ \<sigma> =
     (let val = load64 (mem \<sigma>) (regs \<sigma> RSP)
      in Some (\<sigma>\<lparr>regs := (regs \<sigma>)(RSP := regs \<sigma> RSP + 8),
                 rflags := popfq_flags P (rflags \<sigma>) val\<rparr>))"
| "exec_instr P (POP_m a) \<sigma> =
     (let val = load64 (mem \<sigma>) (regs \<sigma> RSP);
          \<sigma>' = \<sigma>\<lparr>regs := (regs \<sigma>)(RSP := regs \<sigma> RSP + 8)\<rparr>
      in Some (\<sigma>'\<lparr>mem := store64 (mem \<sigma>') (ea \<sigma>' a) val\<rparr>))"
| "exec_instr P (CALL_m a) \<sigma> =
     (let target = load64 (mem \<sigma>) (ea \<sigma> a);
          sp = regs \<sigma> RSP - 8
      in native_code P target
           (\<sigma>\<lparr>regs := (regs \<sigma>)(RSP := sp), mem := store64 (mem \<sigma>) sp (return_address P)\<rparr>))"

text \<open>
  A straight-line block. The trap flag TF is bit 8 of the flags: an instruction that
  starts with TF set is followed by a single-step trap, and the process, which has no
  handler for it, is ended there; nothing that the instruction did is seen by a caller.
  The result is \<open>None\<close> when the block does not reach its end: a trap ends the process,
  or a call never returns. Of the flags that \<^verbatim>\<open>popfq\<close> loads, TF is the one that stops these
  instructions; the object is aligned as C++ aligns it, so the alignment check that AC
  enables finds nothing.
\<close>

fun exec :: "platform \<Rightarrow> instr list \<Rightarrow> machine \<Rightarrow> machine option" where
  "exec P [] \<sigma> = Some \<sigma>"
| "exec P (i # is) \<sigma> =
     (if bit (rflags \<sigma>) 8 then None
      else case exec_instr P i \<sigma> of None \<Rightarrow> None | Some \<sigma>' \<Rightarrow> exec P is \<sigma>')"

text \<open>
  The same block with the trap left out: what a run does as long as no trap ends it. It
  serves the proofs only: a run of \<open>exec\<close> that reaches the end of the block is a run of
  \<open>exec_untrapped\<close> with the same result.
\<close>

fun exec_untrapped :: "platform \<Rightarrow> instr list \<Rightarrow> machine \<Rightarrow> machine option" where
  "exec_untrapped P [] \<sigma> = Some \<sigma>"
| "exec_untrapped P (i # is) \<sigma> =
     (case exec_instr P i \<sigma> of None \<Rightarrow> None | Some \<sigma>' \<Rightarrow> exec_untrapped P is \<sigma>')"

subsection \<open>\<^verbatim>\<open>invoke\<close>\<close>

text \<open>The operand \<^verbatim>\<open>[ rsp - sd ] emulator.f\<close>: \<^verbatim>\<open>rsp - sd\<close> plus the offset of the member.\<close>

definition fld :: "layout \<Rightarrow> field \<Rightarrow> mem_operand" where
  "fld L f = At RSP (word_of_nat (offset_of L f) - word_of_nat (reserved_stack_size L))"

text \<open>The \<^verbatim>\<open>_asm\<close> block of \<^verbatim>\<open>emulator::invoke\<close>, line by line.\<close>

definition invoke_asm :: "layout \<Rightarrow> 64 word \<Rightarrow> instr list" where
  "invoke_asm L this =
   [ MOV_rr RAX RSP,
     MOV_ri RSP this,
     ADD_ri RSP (word_of_nat (reserved_stack_size L)),
     MOV_mr (fld L emu_rsp) RAX,

     XCHG_rm RAX (fld L v_rax),
     XCHG_rm RBX (fld L v_rbx),
     XCHG_rm RCX (fld L v_rcx),
     XCHG_rm RDX (fld L v_rdx),
     XCHG_rm RSI (fld L v_rsi),
     XCHG_rm RDI (fld L v_rdi),
     XCHG_rm RBP (fld L v_rbp),
     XCHG_rm R8 (fld L v_r8),
     XCHG_rm R9 (fld L v_r9),
     XCHG_rm R10 (fld L v_r10),
     XCHG_rm R11 (fld L v_r11),
     XCHG_rm R12 (fld L v_r12),
     XCHG_rm R13 (fld L v_r13),
     XCHG_rm R14 (fld L v_r14),
     XCHG_rm R15 (fld L v_r15),

     PUSHFQ,
     PUSH_m (fld L v_rflags),
     POPFQ,
     POP_m (fld L v_rflags),

     CALL_m (fld L emu_rip),

     PUSHFQ,
     PUSH_m (fld L v_rflags),
     POPFQ,
     POP_m (fld L v_rflags),

     XCHG_rm RAX (fld L v_rax),
     XCHG_rm RBX (fld L v_rbx),
     XCHG_rm RCX (fld L v_rcx),
     XCHG_rm RDX (fld L v_rdx),
     XCHG_rm RSI (fld L v_rsi),
     XCHG_rm RDI (fld L v_rdi),
     XCHG_rm RBP (fld L v_rbp),
     XCHG_rm R8 (fld L v_r8),
     XCHG_rm R9 (fld L v_r9),
     XCHG_rm R10 (fld L v_r10),
     XCHG_rm R11 (fld L v_r11),
     XCHG_rm R12 (fld L v_r12),
     XCHG_rm R13 (fld L v_r13),
     XCHG_rm R14 (fld L v_r14),
     XCHG_rm R15 (fld L v_r15),

     MOV_rm RSP (fld L emu_rsp) ]"

text \<open>
  \<^verbatim>\<open>invoke\<close>: the assignment \<^verbatim>\<open>__rip = routine_pointer\<close>, then the block. The result is the
  machine state at the end of the block, \<open>None\<close> when the block does not reach its end (a
  trap ends the process, or the routine never returns).
\<close>

definition invoke :: "platform \<Rightarrow> layout \<Rightarrow> 64 word \<Rightarrow> 64 word \<Rightarrow> machine \<Rightarrow> machine option" where
  "invoke P L this routine_pointer \<sigma> =
     exec P (invoke_asm L this)
       (\<sigma>\<lparr>mem := store64 (mem \<sigma>) (this + word_of_nat (offset_of L emu_rip)) routine_pointer\<rparr>)"

text \<open>The value that a member of the object at \<open>this\<close> holds.\<close>

definition member :: "layout \<Rightarrow> 64 word \<Rightarrow> machine \<Rightarrow> field \<Rightarrow> 64 word" where
  "member L this \<sigma> f = load64 (mem \<sigma>) (this + word_of_nat (offset_of L f))"

subsection \<open>A layout and a resolver for the examples\<close>

text \<open>
  Modelled from the spec: the declaration of the struct is not part of the sources. The
  example layout has the members in the order in which the spec lists them (the reserved
  scratch region first, then the saved stack pointer, the instruction pointer, the
  fifteen general-purpose slots in the order of the exchange in \<^verbatim>\<open>invoke\<close>, and the
  flags), without padding, behind a reserved stack of \<open>0x50\<close> bytes.
\<close>

fun gpr_index :: "gpr \<Rightarrow> nat" where
  "gpr_index rax = 0" | "gpr_index rbx = 1" | "gpr_index rcx = 2" | "gpr_index rdx = 3"
| "gpr_index rsi = 4" | "gpr_index rdi = 5" | "gpr_index rbp = 6" | "gpr_index r8 = 7"
| "gpr_index r9 = 8"  | "gpr_index r10 = 9" | "gpr_index r11 = 10" | "gpr_index r12 = 11"
| "gpr_index r13 = 12" | "gpr_index r14 = 13" | "gpr_index r15 = 14"

fun field_index :: "field \<Rightarrow> nat" where
  "field_index emu_rsp = 0"
| "field_index emu_rip = 1"
| "field_index (v r) = 2 + gpr_index r"
| "field_index v_rflags = 17"

definition example_layout :: layout where
  "example_layout =
     \<lparr> reserved_stack_size = 0x50,
       offset_of = (\<lambda>f. 0x50 + 8 * field_index f),
       size_of = 0x50 + 8 * 18 \<rparr>"

text \<open>
  Modelled from the spec: the resolver is an external collaborator. The example resolver
  gives four views of \<^verbatim>\<open>rax\<close> (one byte at offset 0, one byte at offset 1, two bytes and
  four bytes, under the enumerators 2, 1, 3 and 19) and takes every other identifier as
  its own base register, eight bytes wide.
\<close>

fun example_resolver :: resolver where
  "example_resolver (X86_REG_other n) =
     (if n = 2 then (X86_REG_RAX, 0, 1)
      else if n = 1 then (X86_REG_RAX, 1, 1)
      else if n = 3 then (X86_REG_RAX, 0, 2)
      else if n = 19 then (X86_REG_RAX, 0, 4)
      else (X86_REG_other n, 0, 8))"
| "example_resolver reg = (reg, 0, 8)"

subsection \<open>The phases of the block\<close>

text \<open>
  The block of \<^verbatim>\<open>invoke\<close> in its phases, as the comments of the source divide it: the
  stack switch, the exchange of the general-purpose registers, the exchange of the flags,
  the call, and the two exchanges again with the restore of the stack pointer.
\<close>

definition gprs :: "gpr list" where
  "gprs = [rax, rbx, rcx, rdx, rsi, rdi, rbp, r8, r9, r10, r11, r12, r13, r14, r15]"

definition switch_stack :: "layout \<Rightarrow> 64 word \<Rightarrow> instr list" where
  "switch_stack L this =
     [MOV_rr RAX RSP, MOV_ri RSP this, ADD_ri RSP (word_of_nat (reserved_stack_size L)),
      MOV_mr (fld L emu_rsp) RAX]"

definition exchange_gprs :: "layout \<Rightarrow> gpr list \<Rightarrow> instr list" where
  "exchange_gprs L rs = map (\<lambda>r. XCHG_rm (G r) (fld L (v r))) rs"

definition exchange_flags :: "layout \<Rightarrow> instr list" where
  "exchange_flags L = [PUSHFQ, PUSH_m (fld L v_rflags), POPFQ, POP_m (fld L v_rflags)]"

definition after_call :: "layout \<Rightarrow> instr list" where
  "after_call L = exchange_flags L @ exchange_gprs L gprs @ [MOV_rm RSP (fld L emu_rsp)]"

subsection \<open>Invoked routines\<close>

text \<open>
  A well-behaved routine, as far as \<^verbatim>\<open>invoke\<close> depends on it: entered as \<^verbatim>\<open>invoke\<close> enters it
  (the stack pointer at \<open>this + sd - 8\<close>, where the return address lies), the native code
  at \<open>rp\<close>, whenever it returns, has popped exactly its return address and has left the
  members \<open>F\<close> of the object as they were.
\<close>

definition returns_keeping :: "platform \<Rightarrow> 64 word \<Rightarrow> layout \<Rightarrow> 64 word \<Rightarrow> field set \<Rightarrow> bool" where
  "returns_keeping P rp L this F \<longleftrightarrow>
     (\<forall>\<sigma> \<sigma>'. regs \<sigma> RSP = this + word_of_nat (reserved_stack_size L) - 8 \<longrightarrow>
        native_code P rp \<sigma> = Some \<sigma>' \<longrightarrow>
        regs \<sigma>' RSP = regs \<sigma> RSP + 8 \<and> (\<forall>f\<in>F. member L this \<sigma>' f = member L this \<sigma> f))"

text \<open>The routine that performs only a return: \<^verbatim>\<open>ret\<close> pops the return address.\<close>

definition ret_only :: "machine \<Rightarrow> machine option" where
  "ret_only \<sigma> = Some (\<sigma>\<lparr>regs := (regs \<sigma>)(RSP := regs \<sigma> RSP + 8)\<rparr>)"

text \<open>
  The routine of the end-to-end scenario: it computes \<open>dst = a + b\<close> on the hardware
  registers (the flags as an \<^verbatim>\<open>add\<close> leaves them) and returns.
\<close>

definition add_routine ::
  "(64 word \<Rightarrow> 64 word \<Rightarrow> 64 word \<Rightarrow> 64 word) \<Rightarrow> gpr \<Rightarrow> gpr \<Rightarrow> gpr \<Rightarrow> machine \<Rightarrow> machine option" where
  "add_routine flags_of_add dst a b \<sigma> =
     Some (\<sigma>\<lparr>regs := (regs \<sigma>)(G dst := regs \<sigma> (G a) + regs \<sigma> (G b), RSP := regs \<sigma> RSP + 8),
              rflags := flags_of_add (rflags \<sigma>) (regs \<sigma> (G a)) (regs \<sigma> (G b))\<rparr>)"

text \<open>
  A routine that stores its first argument in its home slot and returns, as the Microsoft
  x64 convention lets a callee do: \<^verbatim>\<open>mov [rsp + 8], rcx; ret\<close>.
\<close>

definition home_spill :: "machine \<Rightarrow> machine option" where
  "home_spill \<sigma> =
     Some (\<sigma>\<lparr>mem := store64 (mem \<sigma>) (regs \<sigma> RSP + 8) (regs \<sigma> RCX),
              regs := (regs \<sigma>)(RSP := regs \<sigma> RSP + 8)\<rparr>)"

text \<open>
  What the runs of the block below need of a platform and of a layout: \<^verbatim>\<open>add\<close> leaves TF
  as it was and \<^verbatim>\<open>popfq\<close> takes TF from the value it pops (amd64, in user mode); and the
  member \<^verbatim>\<open>v_rflags\<close> lies right behind \<^verbatim>\<open>v_r15\<close>, the last slot that the block exchanges.
\<close>

definition tf_faithful :: "platform \<Rightarrow> bool" where
  "tf_faithful P \<longleftrightarrow>
     (\<forall>old a b. bit (add_flags P old a b) 8 = bit old 8) \<and>
     (\<forall>old val. bit (popfq_flags P old val) 8 = bit val 8)"

definition flags_behind_r15 :: "layout \<Rightarrow> bool" where
  "flags_behind_r15 L \<longleftrightarrow> offset_of L v_rflags = offset_of L v_r15 + 8"

text \<open>Reading a hardware register off the result of \<^verbatim>\<open>invoke\<close>.\<close>

definition reg_after :: "reg64 \<Rightarrow> machine option \<Rightarrow> 64 word option" where
  "reg_after r res = map_option (\<lambda>\<sigma>. regs \<sigma> r) res"

subsection \<open>A platform and a machine state for the examples\<close>

text \<open>
  The flags of amd64 in user mode, for the examples: \<^verbatim>\<open>add\<close> sets the six status flags
  (CF, PF, AF, ZF, SF, OF) from the sum; \<^verbatim>\<open>pushfq\<close> stores the flags with RF and VM
  cleared; \<^verbatim>\<open>popfq\<close> takes the status flags and TF, DF, NT, AC, ID from the value, clears
  RF, VIF and VIP, and keeps the rest.
\<close>

definition flag_bit :: "bool \<Rightarrow> nat \<Rightarrow> 64 word" where
  "flag_bit c n = (if c then push_bit n 1 else 0)"

definition amd64_add_flags :: "64 word \<Rightarrow> 64 word \<Rightarrow> 64 word \<Rightarrow> 64 word" where
  "amd64_add_flags old a b =
     (let r = a + b
      in (old AND NOT 0x8D5)
         OR flag_bit (r < a) 0
         OR flag_bit (even (length (filter (bit r) [0..<8]))) 2
         OR flag_bit (bit (a XOR b XOR r) 4) 4
         OR flag_bit (r = 0) 6
         OR flag_bit (bit r 63) 7
         OR flag_bit (bit ((a XOR r) AND (b XOR r)) 63) 11)"

definition amd64_pushfq_image :: "64 word \<Rightarrow> 64 word" where
  "amd64_pushfq_image fl = fl AND 0xFCFFFF"

definition amd64_popfq_flags :: "64 word \<Rightarrow> 64 word \<Rightarrow> 64 word" where
  "amd64_popfq_flags old val = (old AND NOT 0x3D4DD5) OR (val AND 0x244DD5)"

definition example_platform :: "(64 word \<Rightarrow> machine \<Rightarrow> machine option) \<Rightarrow> platform" where
  "example_platform routines =
     \<lparr> native_code = routines,
       return_address = 0x401000,
       add_flags = amd64_add_flags,
       pushfq_image = amd64_pushfq_image,
       popfq_flags = amd64_popfq_flags \<rparr>"

text \<open>
  The platform on which every address holds the routine that only returns, the one on
  which every address holds the routine \<open>rax = rcx + rdx\<close> (the first two argument
  registers and the return-value register of the Microsoft x64 convention), and the one
  on which every address holds the routine that stores \<^verbatim>\<open>rcx\<close> in its home slot.
\<close>

definition ret_only_platform :: platform where
  "ret_only_platform = example_platform (\<lambda>rp. ret_only)"

definition add_platform :: platform where
  "add_platform = example_platform (\<lambda>rp. add_routine amd64_add_flags rax rcx rdx)"

definition spill_platform :: platform where
  "spill_platform = example_platform (\<lambda>rp. home_spill)"

text \<open>
  A machine state: the stack pointer at \<open>0x7000\<close>, \<^verbatim>\<open>rax\<close> holding 1, every other register
  holding \<open>0x20\<close> plus its index (so \<^verbatim>\<open>r15\<close> holds \<open>0x2E\<close>), the flags \<open>0x202\<close>, every byte of
  memory \<open>0xFF\<close>. The state \<open>spill_state\<close> is the same with 3 in the slot \<^verbatim>\<open>v_rcx\<close> of the
  object at \<open>0x1000\<close>, and \<open>trapping_state\<close> the same with \<open>0x10E\<close> in \<^verbatim>\<open>r15\<close>.
\<close>

definition example_state :: machine where
  "example_state =
     \<lparr> regs = (\<lambda>r. case r of RSP \<Rightarrow> 0x7000 | G g \<Rightarrow> (if g = rax then 1 else 0x20 + word_of_nat (gpr_index g))),
       rflags = 0x202,
       mem = (\<lambda>a. 0xFF) \<rparr>"

definition spill_state :: machine where
  "spill_state =
     example_state\<lparr>mem := store64 (mem example_state)
                            (0x1000 + word_of_nat (offset_of example_layout v_rcx)) 3\<rparr>"

definition trapping_state :: machine where
  "trapping_state = example_state\<lparr>regs := (regs example_state)(R15 := 0x10E)\<rparr>"

section \<open>Properties of the byte copies\<close>

lemma unat_sub_succ:
  fixes x a :: "64 word"
  assumes "x \<noteq> a"
  shows "unat (x - (a + 1)) = unat (x - a) - 1"
proof -
  have "x - a \<noteq> 0" using assms by simp
  hence "unat (x - a - 1) = unat (x - a) - 1" by (rule unat_minus_one)
  thus ?thesis by (simp add: diff_diff_eq)
qed

lemma memcpy_to_apply:
  "n \<le> 8 \<Longrightarrow>
   memcpy_to m a val n x =
     (if unat (x - a) < n then ucast (drop_bit (8 * unat (x - a)) val) else m x)"
proof (induction n arbitrary: m a val)
  case 0
  show ?case by simp
next
  case (Suc n)
  hence n8: "n \<le> 8" by simp
  show ?case
  proof (cases "x = a")
    case True
    have "unat (x - (a + 1)) = unat (- 1 :: 64 word)" using True by simp
    hence "\<not> unat (x - (a + 1)) < n"
      using Suc.prems by (simp add: unsigned_minus_1_eq_mask mask_eq_exp_minus_1)
    hence "memcpy_to (m(a := ucast val)) (a + 1) (drop_bit 8 val) n x = (m(a := ucast val)) x"
      by (simp add: Suc.IH[OF n8])
    thus ?thesis using True by simp
  next
    case False
    hence nz: "unat (x - a) \<noteq> 0" by (simp add: unat_eq_0)
    have d: "unat (x - (a + 1)) = unat (x - a) - 1" using False by (rule unat_sub_succ)
    have e: "8 * (unat (x - a) - Suc 0) + 8 = 8 * unat (x - a)" using nz by simp
    show ?thesis using False nz
      by (auto simp add: Suc.IH[OF n8] d e)
  qed
qed

lemma bit_memcpy_from:
  "bit (memcpy_from m a n val) i \<longleftrightarrow>
     (if i < 8 * n then i < 64 \<and> bit (m (a + of_nat (i div 8))) (i mod 8) else bit val i)"
proof (induction n arbitrary: a val i)
  case 0
  show ?case by simp
next
  case (Suc n)
  show ?case
  proof (cases "i < 8")
    case True
    thus ?thesis by (simp add: bit_or_iff bit_ucast_iff bit_push_bit_iff)
  next
    case False
    hence i8: "8 \<le> i" by simp
    obtain j where j: "i = 8 + j" using i8 by (auto simp: le_iff_add)
    have dv: "(i - 8) div 8 = i div 8 - 1" and md: "(i - 8) mod 8 = i mod 8"
      unfolding j by simp_all
    have ad: "a + 1 + of_nat (i div 8 - 1) = a + of_nat (i div 8)"
      using i8 by simp
    have nb: "\<not> bit (m a) i" using i8 by (auto dest: bit_imp_le_length)
    have lt: "i - 8 < 8 * n \<longleftrightarrow> i < 8 * Suc n" using i8 by auto
    show ?thesis
      using i8 nb
      by (auto simp add: bit_or_iff bit_ucast_iff bit_push_bit_iff Suc.IH dv md ad lt bit_drop_bit_eq
          dest: bit_imp_le_length)
  qed
qed

lemma memcpy_round_trip:
  assumes "n \<le> 8"
  shows "memcpy_from (memcpy_to m a val n) a n 0 = take_bit (8 * n) val"
proof (rule bit_eqI)
  fix i
  show "bit (memcpy_from (memcpy_to m a val n) a n 0) i = bit (take_bit (8 * n) val) i"
  proof (cases "i < 8 * n")
    case True
    hence k: "i div 8 < n" by auto
    hence uk: "unat (of_nat (i div 8) :: 64 word) = i div 8"
      using assms by (simp add: unat_of_nat)
    hence u: "unat (a + of_nat (i div 8) - a) < n" using k by simp
    have "i mod 8 + 8 * (i div 8) = i" by simp
    thus ?thesis using True u k
      by (auto simp add: bit_memcpy_from memcpy_to_apply[OF assms] bit_take_bit_iff bit_ucast_iff
          bit_drop_bit_eq uk dest: bit_imp_le_length)
  next
    case False
    thus ?thesis by (simp add: bit_memcpy_from bit_take_bit_iff)
  qed
qed

section \<open>Properties of the accessors\<close>

lemma to_int32_id: "0 \<le> x \<Longrightarrow> x < 2 ^ 31 \<Longrightarrow> to_int32 x = x"
  by (simp add: to_int32_def)

lemma to_uint8_id: "n \<le> 8 \<Longrightarrow> to_uint8 n = n"
  by (simp add: to_uint8_def)

lemma resolve_base:
  assumes "rm reg = (base_reg, ofs, sz)" and "slot_base base_reg = Some f"
  shows "resolve L rm reg = Inr (to_int32 (int (offset_of L f) + int ofs), to_uint8 sz)"
  using assms by (simp add: resolve_def)

lemma resolve_no_wrap:
  assumes "wf_layout L" and "rm reg = (base_reg, ofs, sz)" and "slot_base base_reg = Some f"
    and "ofs + sz \<le> 8"
  shows "resolve L rm reg = Inr (int (offset_of L f) + int ofs, sz)"
proof -
  have "offset_of L f + 8 \<le> size_of L" and "size_of L < 2 ^ 31"
    using assms(1) by (simp_all add: wf_layout_def)
  hence "int (offset_of L f) + int ofs < 2 ^ 31" using assms(4) by simp
  hence "to_int32 (int (offset_of L f) + int ofs) = int (offset_of L f) + int ofs"
    by (simp add: to_int32_id)
  moreover have "to_uint8 sz = sz" using assms(4) by (simp add: to_uint8_id)
  ultimately show ?thesis using assms(2,3) by (simp add: resolve_def)
qed

lemma resolve_unsupported:
  assumes "rm reg = (base_reg, ofs, sz)" and "slot_base base_reg = None"
  shows "resolve L rm reg = Inl Unreachable"
  using assms by (simp add: resolve_def)

lemma slot_base_None_iff:
  "slot_base b = None \<longleftrightarrow>
     b \<notin> {X86_REG_RAX, X86_REG_RBP, X86_REG_RBX, X86_REG_RCX, X86_REG_RDI, X86_REG_RDX,
           X86_REG_RSI, X86_REG_R8, X86_REG_R9, X86_REG_R10, X86_REG_R11, X86_REG_R12,
           X86_REG_R13, X86_REG_R14, X86_REG_R15}"
  by (cases b) simp_all

lemma set_frame_bytes:
  assumes "resolve L rm reg = Inr (off, width)" and "width \<le> 8"
  shows "\<exists>m'. emulator_set L rm this reg val m = Inr m' \<and>
           (\<forall>k<width. m' (this + word_of_int off + word_of_nat k) = ucast (drop_bit (8 * k) val)) \<and>
           (\<forall>x. x \<notin> (\<lambda>k. this + word_of_int off + word_of_nat k) ` {..<width} \<longrightarrow> m' x = m x)"
proof -
  let ?a = "this + word_of_int off :: 64 word"
  let ?m' = "memcpy_to m ?a val width"
  have s: "emulator_set L rm this reg val m = Inr ?m'"
    using assms by (simp add: emulator_set_def)
  have w: "\<And>k. k < width \<Longrightarrow> ?m' (?a + word_of_nat k) = ucast (drop_bit (8 * k) val)"
  proof -
    fix k assume k: "k < width"
    hence "unat (word_of_nat k :: 64 word) = k" using assms(2) by (simp add: unat_of_nat)
    thus "?m' (?a + word_of_nat k) = ucast (drop_bit (8 * k) val)"
      using k by (simp add: memcpy_to_apply[OF assms(2)])
  qed
  have fr: "\<And>x. x \<notin> (\<lambda>k. ?a + word_of_nat k) ` {..<width} \<Longrightarrow> ?m' x = m x"
  proof -
    fix x assume x: "x \<notin> (\<lambda>k. ?a + word_of_nat k) ` {..<width}"
    have "\<not> unat (x - ?a) < width"
    proof
      assume "unat (x - ?a) < width"
      moreover have "x = ?a + word_of_nat (unat (x - ?a))" by simp
      ultimately show False using x by blast
    qed
    thus "?m' x = m x" by (simp add: memcpy_to_apply[OF assms(2)])
  qed
  show ?thesis using s w fr by blast
qed

lemma unat_addr_diff:
  fixes a :: "64 word"
  assumes "p < 2 ^ 32" and "q < 2 ^ 32"
  shows "unat ((a + word_of_nat p) - (a + word_of_nat q)) = (if q \<le> p then p - q else p + 2 ^ 64 - q)"
proof -
  have u: "unat (word_of_nat p :: 64 word) = p" "unat (word_of_nat q :: 64 word) = q"
    using assms by (simp_all add: unat_of_nat)
  have "(a + word_of_nat p) - (a + word_of_nat q) = (word_of_nat p :: 64 word) - word_of_nat q"
    by simp
  thus ?thesis by (simp add: unat_sub_if_size u word_size)
qed

lemma memcpy_to_at:
  assumes "n \<le> 8" and "p < 2 ^ 32" and "q < 2 ^ 32"
  shows "memcpy_to m (a + word_of_nat q) val n (a + word_of_nat p) =
           (if q \<le> p \<and> p < q + n then ucast (drop_bit (8 * (p - q)) val) else m (a + word_of_nat p))"
proof -
  have "unat ((a + word_of_nat p) - (a + word_of_nat q)) < n \<longleftrightarrow> q \<le> p \<and> p < q + n"
    using assms unfolding unat_addr_diff[OF assms(2,3)] by auto
  moreover have "q \<le> p \<Longrightarrow> unat ((a + word_of_nat p) - (a + word_of_nat q)) = p - q"
    unfolding unat_addr_diff[OF assms(2,3)] by simp
  ultimately show ?thesis
    unfolding memcpy_to_apply[OF assms(1)] by (simp del: add_diff_cancel_left)
qed

lemma bit_memcpy_from_at:
  "bit (memcpy_from m (a + word_of_nat p) n val) i \<longleftrightarrow>
     (if i < 8 * n then i < 64 \<and> bit (m (a + word_of_nat (p + i div 8))) (i mod 8) else bit val i)"
  by (simp add: bit_memcpy_from add.assoc)

lemma wf_example_layout: "wf_layout example_layout"
proof -
  have inj: "field_index f = field_index g \<Longrightarrow> f = g" for f g
  proof (cases f; cases g)
    fix r s assume "field_index f = field_index g" "f = v r" "g = v s"
    thus "f = g" by (cases r; cases s) simp_all
  next
    fix r assume "field_index f = field_index g" "f = v r" "g = emu_rsp"
    thus "f = g" by simp
  next
    fix r assume "field_index f = field_index g" "f = v r" "g = emu_rip"
    thus "f = g" by simp
  next
    fix r assume "field_index f = field_index g" "f = v r" "g = v_rflags"
    thus "f = g" by (cases r) simp_all
  next
    fix r assume "field_index f = field_index g" "g = v r" "f = emu_rsp"
    thus "f = g" by simp
  next
    fix r assume "field_index f = field_index g" "g = v r" "f = emu_rip"
    thus "f = g" by simp
  next
    fix r assume "field_index f = field_index g" "g = v r" "f = v_rflags"
    thus "f = g" by (cases r) simp_all
  qed simp_all
  have bound: "field_index f < 18" for f
  proof (cases f)
    case (v r) thus ?thesis by (cases r) simp_all
  qed simp_all
  have "8 * field_index f + 8 \<le> 144" for f using bound[of f] by simp
  moreover have "f \<noteq> g \<Longrightarrow> 8 + 8 * field_index f \<le> 8 * field_index g \<or> 8 + 8 * field_index g \<le> 8 * field_index f" for f g
  proof -
    assume "f \<noteq> g"
    hence "field_index f \<noteq> field_index g" using inj[of f g] by blast
    thus ?thesis by arith
  qed
  ultimately show ?thesis
    by (simp add: wf_layout_def example_layout_def)
qed

lemma get_supported:
  assumes "rm reg = (base_reg, ofs, width)" and "slot_base base_reg = Some f" and "width \<le> 8"
  shows "emulator_get L rm this reg m =
           Inr (memcpy_from m (this + word_of_int (to_int32 (int (offset_of L f) + int ofs))) width 0, m)"
  using assms by (simp add: emulator_get_def resolve_def to_uint8_id)

lemma set_supported:
  assumes "rm reg = (base_reg, ofs, width)" and "slot_base base_reg = Some f" and "width \<le> 8"
  shows "emulator_set L rm this reg val m =
           Inr (memcpy_to m (this + word_of_int (to_int32 (int (offset_of L f) + int ofs))) val width)"
  using assms by (simp add: emulator_set_def resolve_def to_uint8_id)

lemma set_get_same:
  assumes "rm reg = (base_reg, ofs, width)" and "slot_base base_reg = Some f" and "width \<le> 8"
  shows "\<exists>m'. emulator_set L rm this reg val m = Inr m' \<and>
              emulator_get L rm this reg m' = Inr (take_bit (8 * width) val, m')"
  using assms
  by (simp add: set_supported[where rm = rm and reg = reg] get_supported[where rm = rm and reg = reg]
      memcpy_round_trip)

lemma field_address:
  assumes "wf_layout L" and "ofs + width \<le> 8"
  shows "this + word_of_int (to_int32 (int (offset_of L f) + int ofs)) =
           (this + word_of_nat (offset_of L f + ofs) :: 64 word)"
    and "offset_of L f + ofs + 8 < 2 ^ 32"
proof -
  have b: "offset_of L f + 8 \<le> size_of L" "size_of L < 2 ^ 31"
    using assms(1) by (simp_all add: wf_layout_def)
  hence "int (offset_of L f) + int ofs < 2 ^ 31" using assms(2) by simp
  hence "to_int32 (int (offset_of L f) + int ofs) = int (offset_of L f + ofs)"
    by (simp add: to_int32_id)
  thus "this + word_of_int (to_int32 (int (offset_of L f) + int ofs)) =
           (this + word_of_nat (offset_of L f + ofs) :: 64 word)"
    by simp
  show "offset_of L f + ofs + 8 < 2 ^ 32" using b assms(2) by simp
qed

lemma alias_write:
  assumes wf: "wf_layout L"
    and full: "rm full = (base_reg, fo, fw)" and lo: "rm lo = (base_reg, lo_o, lw)"
    and base: "slot_base base_reg = Some f"
    and inside: "fo \<le> lo_o" "lo_o + lw \<le> fo + fw" "fo + fw \<le> 8"
  shows "\<exists>m1 m2. emulator_set L rm this full V m = Inr m1 \<and>
           emulator_set L rm this lo v2 m1 = Inr m2 \<and>
           emulator_get L rm this full m2 =
             Inr ((take_bit (8 * fw) V AND NOT (push_bit (8 * (lo_o - fo)) (mask (8 * lw))))
                    OR push_bit (8 * (lo_o - fo)) (take_bit (8 * lw) v2), m2)"
proof -
  define ob where "ob = offset_of L f"
  define d where "d = lo_o - fo"
  have fw8: "fw \<le> 8" and lw8: "lw \<le> 8" and lo8: "lo_o + lw \<le> 8" using inside by simp_all
  have aF: "this + word_of_int (to_int32 (int (offset_of L f) + int fo)) = (this + word_of_nat (ob + fo) :: 64 word)"
    and bF: "ob + fo + 8 < 2 ^ 32"
    using field_address(1)[OF wf inside(3), of this f] field_address(2)[OF wf inside(3), of f]
    by (simp_all add: ob_def)
  have aL: "this + word_of_int (to_int32 (int (offset_of L f) + int lo_o)) = (this + word_of_nat (ob + lo_o) :: 64 word)"
    and bL: "ob + lo_o + 8 < 2 ^ 32"
    using field_address(1)[OF wf lo8, of this f] field_address(2)[OF wf lo8, of f]
    by (simp_all add: ob_def)
  define m1 where "m1 = memcpy_to m (this + word_of_nat (ob + fo)) V fw"
  define m2 where "m2 = memcpy_to m1 (this + word_of_nat (ob + lo_o)) v2 lw"
  have s1: "emulator_set L rm this full V m = Inr m1"
    using full base fw8 by (simp add: set_supported[where rm = rm and reg = full] aF m1_def)
  have s2: "emulator_set L rm this lo v2 m1 = Inr m2"
    using lo base lw8 by (simp add: set_supported[where rm = rm and reg = lo] aL m2_def)
  have g: "emulator_get L rm this full m2 = Inr (memcpy_from m2 (this + word_of_nat (ob + fo)) fw 0, m2)"
    using full base fw8 by (simp add: get_supported[where rm = rm and reg = full] aF)
  have byte: "m2 (this + word_of_nat (ob + fo + k)) =
                (if d \<le> k \<and> k < d + lw then ucast (drop_bit (8 * (k - d)) v2)
                 else ucast (drop_bit (8 * k) V))" if k: "k < fw" for k
  proof -
    have p: "ob + fo + k < 2 ^ 32" using bF k fw8 by simp
    have q: "ob + lo_o < 2 ^ 32" and q': "ob + fo < 2 ^ 32" using bL bF by simp_all
    have c: "ob + lo_o \<le> ob + fo + k \<and> ob + fo + k < ob + lo_o + lw \<longleftrightarrow> d \<le> k \<and> k < d + lw"
      using inside by (auto simp: d_def)
    have e: "d \<le> k \<Longrightarrow> ob + fo + k - (ob + lo_o) = k - d" using inside by (simp add: d_def)
    have "m1 (this + word_of_nat (ob + fo + k)) = ucast (drop_bit (8 * k) V)"
      unfolding m1_def memcpy_to_at[OF fw8 p q'] using k by simp
    thus ?thesis
      unfolding m2_def memcpy_to_at[OF lw8 p q] c using e by simp
  qed
  have "memcpy_from m2 (this + word_of_nat (ob + fo)) fw 0 =
          (take_bit (8 * fw) V AND NOT (push_bit (8 * d) (mask (8 * lw))))
             OR push_bit (8 * d) (take_bit (8 * lw) v2)"
  proof (rule bit_eqI)
    fix i
    assume "possible_bit TYPE(64 word) i"
    hence i64: "i < 64" by simp
    show "bit (memcpy_from m2 (this + word_of_nat (ob + fo)) fw 0) i =
          bit ((take_bit (8 * fw) V AND NOT (push_bit (8 * d) (mask (8 * lw))))
             OR push_bit (8 * d) (take_bit (8 * lw) v2)) i"
    proof (cases "i < 8 * fw")
      case False
      hence "\<not> (8 * d \<le> i \<and> i - 8 * d < 8 * lw)" using inside by (auto simp: d_def)
      thus ?thesis unfolding bit_memcpy_from_at using False
        by (auto simp add: bit_or_iff bit_and_iff bit_not_iff bit_push_bit_iff
            bit_take_bit_iff bit_mask_iff)
    next
      case True
      hence k: "i div 8 < fw" by auto
      have r1: "d \<le> i div 8 \<longleftrightarrow> 8 * d \<le> i" by auto
      have r2: "i div 8 < d + lw \<longleftrightarrow> i < 8 * d + 8 * lw" by auto
      have r3: "8 * d \<le> i \<Longrightarrow> 8 * (i div 8 - d) + i mod 8 = i - 8 * d"
        by (simp add: diff_mult_distrib2 r1[symmetric]) 
      have r4: "8 * (i div 8) + i mod 8 = i" by simp
      have r5: "i mod 8 < 8" by simp
      show ?thesis
        unfolding bit_memcpy_from_at byte[OF k]
        using True i64 r3 r4 r5
        by (auto simp add: r1 r2 bit_or_iff bit_and_iff bit_not_iff
            bit_push_bit_iff bit_take_bit_iff bit_mask_iff bit_ucast_iff bit_drop_bit_eq)
    qed
  qed
  thus ?thesis using s1 s2 g by (simp add: d_def)
qed

section \<open>The claims about the accessors\<close>

text \<open>
  Claim C1. For every supported register \<open>reg\<close> (its base register has a slot and its
  width is at most the eight bytes of a value) and every 64-bit value, \<^verbatim>\<open>set(reg, val)\<close>
  followed by \<^verbatim>\<open>get(reg)\<close> on the same object returns \<open>val\<close> truncated to the resolved
  width and zero-extended to 64 bits, whatever the memory held before.
\<close>

theorem set_then_get:
  assumes "rm reg = (base_reg, ofs, width)" and "slot_base base_reg = Some f" and "width \<le> 8"
  shows "\<exists>m'. emulator_set L rm this reg val m = Inr m' \<and>
              emulator_get L rm this reg m' = Inr (take_bit (8 * width) val, m')"
  using assms by (rule set_get_same)

theorem set_then_get_witness:
  "example_resolver (X86_REG_other 3) = (X86_REG_RAX, 0, 2) \<and>
   slot_base X86_REG_RAX = Some v_rax \<and> (2 :: nat) \<le> 8 \<and>
   (\<exists>m'. emulator_set example_layout example_resolver 0x1000 (X86_REG_other 3)
            0x1122334455667788 (\<lambda>a. 0xFF) = Inr m' \<and>
         emulator_get example_layout example_resolver 0x1000 (X86_REG_other 3) m' = Inr (0x7788, m'))"
proof -
  have h1: "example_resolver (X86_REG_other 3) = (X86_REG_RAX, 0, 2)" by simp
  have h2: "slot_base X86_REG_RAX = Some v_rax" by simp
  have h3: "(2 :: nat) \<le> 8" by simp
  have t: "take_bit (8 * 2) (0x1122334455667788 :: 64 word) = 0x7788" by simp
  show ?thesis
    using set_then_get[where rm = example_resolver and reg = "X86_REG_other 3", OF h1 h2 h3,
        of example_layout "0x1000" "0x1122334455667788" "\<lambda>a. 0xFF"] h1 h2 h3
    unfolding t by blast
qed

text \<open>
  Claim C2. For every register that resolves to \<open>(off, width)\<close>, \<^verbatim>\<open>set\<close> writes the low
  \<open>width\<close> bytes of the value at \<open>this + off\<close>, least significant first, and leaves every
  other byte of the memory as it was. In particular, for a wide alias \<open>full\<close> and a narrow
  alias \<open>lo\<close> of one base register, \<open>lo\<close> inside \<open>full\<close>: \<^verbatim>\<open>set(full, V); set(lo, v2);
  get(full)\<close> gives \<open>V\<close> (as wide as \<open>full\<close>) with the bytes of \<open>lo\<close> replaced by \<open>v2\<close>.
\<close>

theorem set_writes_only_its_bytes:
  "(resolve L rm reg = Inr (off, width) \<longrightarrow> width \<le> 8 \<longrightarrow>
      (\<exists>m'. emulator_set L rm this reg val m = Inr m' \<and>
         (\<forall>k<width. m' (this + word_of_int off + word_of_nat k) = ucast (drop_bit (8 * k) val)) \<and>
         (\<forall>x. x \<notin> (\<lambda>k. this + word_of_int off + word_of_nat k) ` {..<width} \<longrightarrow> m' x = m x))) \<and>
   (wf_layout L \<longrightarrow> rm full = (base_reg, fo, fw) \<longrightarrow> rm lo = (base_reg, lo_o, lw) \<longrightarrow>
    slot_base base_reg = Some f \<longrightarrow> fo \<le> lo_o \<longrightarrow> lo_o + lw \<le> fo + fw \<longrightarrow> fo + fw \<le> 8 \<longrightarrow>
      (\<exists>m1 m2. emulator_set L rm this full V m = Inr m1 \<and>
         emulator_set L rm this lo v2 m1 = Inr m2 \<and>
         emulator_get L rm this full m2 =
           Inr ((take_bit (8 * fw) V AND NOT (push_bit (8 * (lo_o - fo)) (mask (8 * lw))))
                  OR push_bit (8 * (lo_o - fo)) (take_bit (8 * lw) v2), m2)))"
proof (intro conjI impI)
  assume "resolve L rm reg = Inr (off, width)" and "width \<le> 8"
  thus "\<exists>m'. emulator_set L rm this reg val m = Inr m' \<and>
         (\<forall>k<width. m' (this + word_of_int off + word_of_nat k) = ucast (drop_bit (8 * k) val)) \<and>
         (\<forall>x. x \<notin> (\<lambda>k. this + word_of_int off + word_of_nat k) ` {..<width} \<longrightarrow> m' x = m x)"
    by (rule set_frame_bytes)
next
  assume "wf_layout L" and "rm full = (base_reg, fo, fw)" and "rm lo = (base_reg, lo_o, lw)"
    and "slot_base base_reg = Some f" and "fo \<le> lo_o" and "lo_o + lw \<le> fo + fw" and "fo + fw \<le> 8"
  thus "\<exists>m1 m2. emulator_set L rm this full V m = Inr m1 \<and>
         emulator_set L rm this lo v2 m1 = Inr m2 \<and>
         emulator_get L rm this full m2 =
           Inr ((take_bit (8 * fw) V AND NOT (push_bit (8 * (lo_o - fo)) (mask (8 * lw))))
                  OR push_bit (8 * (lo_o - fo)) (take_bit (8 * lw) v2), m2)"
    by (rule alias_write)
qed

theorem set_writes_only_its_bytes_witness:
  "resolve example_layout example_resolver (X86_REG_other 2) = Inr (96, 1) \<and> (1 :: nat) \<le> 8 \<and>
   wf_layout example_layout \<and>
   example_resolver (X86_REG_other 19) = (X86_REG_RAX, 0, 4) \<and>
   example_resolver (X86_REG_other 1) = (X86_REG_RAX, 1, 1) \<and>
   slot_base X86_REG_RAX = Some v_rax \<and>
   (0 :: nat) \<le> 1 \<and> (1 :: nat) + 1 \<le> 0 + 4 \<and> (0 :: nat) + 4 \<le> 8 \<and>
   (\<exists>m'. emulator_set example_layout example_resolver 0x1000 (X86_REG_other 2) 0x1234 (\<lambda>a. 0xFF) = Inr m' \<and>
      (\<forall>k<1. m' (0x1000 + word_of_int 96 + word_of_nat k) = ucast (drop_bit (8 * k) (0x1234 :: 64 word))) \<and>
      (\<forall>x. x \<notin> (\<lambda>k. 0x1000 + word_of_int 96 + word_of_nat k) ` {..<1} \<longrightarrow> m' x = 0xFF)) \<and>
   (\<exists>m1 m2. emulator_set example_layout example_resolver 0x1000 (X86_REG_other 19)
               0xAABBCCDD11223344 (\<lambda>a. 0xFF) = Inr m1 \<and>
      emulator_set example_layout example_resolver 0x1000 (X86_REG_other 1) 0x5566 m1 = Inr m2 \<and>
      emulator_get example_layout example_resolver 0x1000 (X86_REG_other 19) m2 = Inr (0x11226644, m2))"
proof -
  have h1: "resolve example_layout example_resolver (X86_REG_other 2) = Inr (96, 1)"
    by (simp add: resolve_def example_layout_def to_int32_def to_uint8_def)
  have h2: "(1 :: nat) \<le> 8" by simp
  have h4: "example_resolver (X86_REG_other 19) = (X86_REG_RAX, 0, 4)" by simp
  have h5: "example_resolver (X86_REG_other 1) = (X86_REG_RAX, 1, 1)" by simp
  have h6: "slot_base X86_REG_RAX = Some v_rax" by simp
  have h7: "(0 :: nat) \<le> 1" "(1 :: nat) + 1 \<le> 0 + 4" "(0 :: nat) + 4 \<le> 8" by simp_all
  have t: "(take_bit (8 * 4) (0xAABBCCDD11223344 :: 64 word) AND NOT (push_bit (8 * (1 - 0)) (mask (8 * 1))))
             OR push_bit (8 * (1 - 0)) (take_bit (8 * 1) 0x5566) = 0x11226644"
    by (simp add: mask_eq_exp_minus_1)
  show ?thesis
    using set_writes_only_its_bytes[where L = example_layout and rm = example_resolver
        and reg = "X86_REG_other 2" and off = 96 and width = 1
        and full = "X86_REG_other 19" and lo = "X86_REG_other 1" and base_reg = X86_REG_RAX
        and fo = 0 and fw = 4 and lo_o = 1 and lw = 1 and f = v_rax
        and this = "0x1000" and val = "0x1234" and m = "\<lambda>a. 0xFF"
        and V = "0xAABBCCDD11223344" and ?v2.0 = "0x5566"]
      h1 h2 wf_example_layout h4 h5 h6 h7
    unfolding t by blast
qed

text \<open>
  Claim C3. For every register identifier whose resolved base register is not one of the
  fifteen bases of the \<^verbatim>\<open>switch\<close>, \<^verbatim>\<open>resolve\<close> reaches \<^verbatim>\<open>unreachable()\<close>, and so do \<^verbatim>\<open>set\<close>
  and \<^verbatim>\<open>get\<close>, for every layout, object and memory (so on every call): none of them
  returns an offset, a memory or a value.
\<close>

theorem unsupported_register_is_fatal:
  assumes "rm reg = (base_reg, ofs, width)"
    and "base_reg \<notin> {X86_REG_RAX, X86_REG_RBP, X86_REG_RBX, X86_REG_RCX, X86_REG_RDI, X86_REG_RDX,
           X86_REG_RSI, X86_REG_R8, X86_REG_R9, X86_REG_R10, X86_REG_R11, X86_REG_R12,
           X86_REG_R13, X86_REG_R14, X86_REG_R15}"
  shows "resolve L rm reg = Inl Unreachable \<and>
         emulator_set L rm this reg val m = Inl Unreachable \<and>
         emulator_get L rm this reg m = Inl Unreachable"
proof -
  have "slot_base base_reg = None" using assms(2) slot_base_None_iff[of base_reg] by blast
  hence "resolve L rm reg = Inl Unreachable" using assms(1) by (simp add: resolve_def)
  thus ?thesis by (simp add: emulator_set_def emulator_get_def)
qed

theorem unsupported_register_is_fatal_witness:
  "example_resolver (X86_REG_other 44) = (X86_REG_other 44, 0, 8) \<and>
   X86_REG_other 44 \<notin> {X86_REG_RAX, X86_REG_RBP, X86_REG_RBX, X86_REG_RCX, X86_REG_RDI, X86_REG_RDX,
           X86_REG_RSI, X86_REG_R8, X86_REG_R9, X86_REG_R10, X86_REG_R11, X86_REG_R12,
           X86_REG_R13, X86_REG_R14, X86_REG_R15} \<and>
   resolve example_layout example_resolver (X86_REG_other 44) = Inl Unreachable \<and>
   emulator_set example_layout example_resolver 0x1000 (X86_REG_other 44) 7 (\<lambda>a. 0) = Inl Unreachable \<and>
   emulator_get example_layout example_resolver 0x1000 (X86_REG_other 44) (\<lambda>a. 0) = Inl Unreachable"
proof -
  have h1: "example_resolver (X86_REG_other 44) = (X86_REG_other 44, 0, 8)" by simp
  have h2: "X86_REG_other 44 \<notin> {X86_REG_RAX, X86_REG_RBP, X86_REG_RBX, X86_REG_RCX, X86_REG_RDI,
           X86_REG_RDX, X86_REG_RSI, X86_REG_R8, X86_REG_R9, X86_REG_R10, X86_REG_R11, X86_REG_R12,
           X86_REG_R13, X86_REG_R14, X86_REG_R15}" by simp
  show ?thesis
    using unsupported_register_is_fatal[where rm = example_resolver and reg = "X86_REG_other 44",
        OF h1 h2, of example_layout "0x1000" 7 "\<lambda>a. 0"] h1 h2
    by blast
qed

text \<open>
  Claim C8. For every supported register (its base register is one of the fifteen bases of
  the \<^verbatim>\<open>switch\<close>, each with the slot that the \<^verbatim>\<open>switch\<close> gives it, and its bytes lie inside the
  eight bytes of the slot), \<^verbatim>\<open>resolve\<close> returns the offset of the slot of the base register
  from the start of the object plus the offset inside the base register that the resolver
  gave, and the width in bytes.
\<close>

theorem resolve_offset_and_width:
  assumes "wf_layout L" and "rm reg = (base_reg, ofs, width)"
    and "(base_reg, slot) \<in> set
           [(X86_REG_RAX, v_rax), (X86_REG_RBP, v_rbp), (X86_REG_RBX, v_rbx), (X86_REG_RCX, v_rcx),
            (X86_REG_RDI, v_rdi), (X86_REG_RDX, v_rdx), (X86_REG_RSI, v_rsi), (X86_REG_R8, v_r8),
            (X86_REG_R9, v_r9), (X86_REG_R10, v_r10), (X86_REG_R11, v_r11), (X86_REG_R12, v_r12),
            (X86_REG_R13, v_r13), (X86_REG_R14, v_r14), (X86_REG_R15, v_r15)]"
    and "ofs + width \<le> 8"
  shows "resolve L rm reg = Inr (int (offset_of L slot) + int ofs, width)"
proof -
  have "slot_base base_reg = Some slot" using assms(3) by auto
  with assms(1,2) show ?thesis using assms(4) by (rule resolve_no_wrap)
qed

theorem resolve_offset_and_width_witness:
  "wf_layout example_layout \<and> example_resolver (X86_REG_other 1) = (X86_REG_RAX, 1, 1) \<and>
   (X86_REG_RAX, v_rax) \<in> set
           [(X86_REG_RAX, v_rax), (X86_REG_RBP, v_rbp), (X86_REG_RBX, v_rbx), (X86_REG_RCX, v_rcx),
            (X86_REG_RDI, v_rdi), (X86_REG_RDX, v_rdx), (X86_REG_RSI, v_rsi), (X86_REG_R8, v_r8),
            (X86_REG_R9, v_r9), (X86_REG_R10, v_r10), (X86_REG_R11, v_r11), (X86_REG_R12, v_r12),
            (X86_REG_R13, v_r13), (X86_REG_R14, v_r14), (X86_REG_R15, v_r15)] \<and>
   (1 :: nat) + 1 \<le> 8 \<and>
   resolve example_layout example_resolver (X86_REG_other 1) = Inr (97, 1) \<and>
   example_resolver X86_REG_R15 = (X86_REG_R15, 0, 8) \<and>
   resolve example_layout example_resolver X86_REG_R15 = Inr (208, 8)"
proof -
  have h2: "example_resolver (X86_REG_other 1) = (X86_REG_RAX, 1, 1)" by simp
  have h3: "(X86_REG_RAX, v_rax) \<in> set
           [(X86_REG_RAX, v_rax), (X86_REG_RBP, v_rbp), (X86_REG_RBX, v_rbx), (X86_REG_RCX, v_rcx),
            (X86_REG_RDI, v_rdi), (X86_REG_RDX, v_rdx), (X86_REG_RSI, v_rsi), (X86_REG_R8, v_r8),
            (X86_REG_R9, v_r9), (X86_REG_R10, v_r10), (X86_REG_R11, v_r11), (X86_REG_R12, v_r12),
            (X86_REG_R13, v_r13), (X86_REG_R14, v_r14), (X86_REG_R15, v_r15)]" by simp
  have h4: "(1 :: nat) + 1 \<le> 8" by simp
  have o: "int (offset_of example_layout v_rax) + int 1 = 97" by (simp add: example_layout_def)
  have g2: "example_resolver X86_REG_R15 = (X86_REG_R15, 0, 8)" by simp
  have g3: "(X86_REG_R15, v_r15) \<in> set
           [(X86_REG_RAX, v_rax), (X86_REG_RBP, v_rbp), (X86_REG_RBX, v_rbx), (X86_REG_RCX, v_rcx),
            (X86_REG_RDI, v_rdi), (X86_REG_RDX, v_rdx), (X86_REG_RSI, v_rsi), (X86_REG_R8, v_r8),
            (X86_REG_R9, v_r9), (X86_REG_R10, v_r10), (X86_REG_R11, v_r11), (X86_REG_R12, v_r12),
            (X86_REG_R13, v_r13), (X86_REG_R14, v_r14), (X86_REG_R15, v_r15)]" by simp
  have g4: "(0 :: nat) + 8 \<le> 8" by simp
  have o2: "int (offset_of example_layout v_r15) + int 0 = 208" by (simp add: example_layout_def)
  show ?thesis
    using resolve_offset_and_width[where rm = example_resolver and reg = "X86_REG_other 1",
        OF wf_example_layout h2 h3 h4]
      resolve_offset_and_width[where rm = example_resolver and reg = X86_REG_R15,
        OF wf_example_layout g2 g3 g4]
      wf_example_layout h2 h3 h4 g2
    unfolding o o2 by blast
qed

text \<open>
  Claim C9. For every supported register and every memory, \<^verbatim>\<open>get\<close> returns a value and
  leaves every byte of the memory, so every slot of the object, as it was.
\<close>

theorem get_modifies_nothing:
  assumes "rm reg = (base_reg, ofs, width)" and "slot_base base_reg = Some f" and "width \<le> 8"
  shows "\<exists>x. emulator_get L rm this reg m = Inr (x, m)"
  using assms by (simp add: get_supported[where rm = rm and reg = reg])

theorem get_modifies_nothing_witness:
  "example_resolver X86_REG_RCX = (X86_REG_RCX, 0, 8) \<and> slot_base X86_REG_RCX = Some v_rcx \<and>
   (8 :: nat) \<le> 8 \<and>
   (\<exists>x. emulator_get example_layout example_resolver 0x1000 X86_REG_RCX (\<lambda>a. 0xFF) = Inr (x, \<lambda>a. 0xFF))"
proof -
  have h1: "example_resolver X86_REG_RCX = (X86_REG_RCX, 0, 8)" by simp
  have h2: "slot_base X86_REG_RCX = Some v_rcx" by simp
  have h3: "(8 :: nat) \<le> 8" by simp
  show ?thesis
    using get_modifies_nothing[where rm = example_resolver and reg = X86_REG_RCX, OF h1 h2 h3,
        of example_layout "0x1000" "\<lambda>a. 0xFF"] h1 h2 h3
    by blast
qed

section \<open>Properties of the machine\<close>

lemma load64_store64_at:
  assumes "p + 8 < 2 ^ 32" and "q + 8 < 2 ^ 32" and "p = q \<or> p + 8 \<le> q \<or> q + 8 \<le> p"
  shows "load64 (store64 m (a + word_of_nat p) val) (a + word_of_nat q) =
           (if p = q then val else load64 m (a + word_of_nat q))"
proof (rule bit_eqI)
  fix i
  assume "possible_bit TYPE(64 word) i"
  hence i64: "i < 64" by simp
  hence k: "i div 8 < 8" by simp
  have qk: "q + i div 8 < 2 ^ 32" and p32: "p < 2 ^ 32" using assms(1,2) k by simp_all
  have r4: "8 * (i div 8) + i mod 8 = i" by simp
  have r5: "i mod 8 < 8" by simp
  have e8: "(8::nat) \<le> 8" by simp
  have byte: "store64 m (a + word_of_nat p) val (a + word_of_nat (q + i div 8)) =
          (if p = q then ucast (drop_bit (8 * (i div 8)) val) else m (a + word_of_nat (q + i div 8)))"
    unfolding store64_def memcpy_to_at[OF e8 qk p32] using assms(3) k by auto
  show "bit (load64 (store64 m (a + word_of_nat p) val) (a + word_of_nat q)) i =
        bit (if p = q then val else load64 m (a + word_of_nat q)) i"
    unfolding load64_def bit_memcpy_from_at byte
    using i64 r4 r5 by (auto simp add: bit_ucast_iff bit_drop_bit_eq bit_memcpy_from_at)
qed

lemma exec_append:
  "exec_untrapped P (xs @ ys) \<sigma> = (case exec_untrapped P xs \<sigma> of None \<Rightarrow> None | Some \<sigma>' \<Rightarrow> exec_untrapped P ys \<sigma>')"
  by (induction xs arbitrary: \<sigma>) (auto split: option.splits)

lemma wf_layout_bounds:
  assumes "wf_layout L"
  shows "offset_of L f + 24 < 2 ^ 32" and "reserved_stack_size L \<le> offset_of L f"
    and "reserved_stack_size L + 24 < 2 ^ 32"
    and "f = g \<or> offset_of L f + 8 \<le> offset_of L g \<or> offset_of L g + 8 \<le> offset_of L f"
proof -
  have b: "offset_of L f + 8 \<le> size_of L" "size_of L < 2 ^ 31" "reserved_stack_size L \<le> offset_of L f"
    using assms by (simp_all add: wf_layout_def)
  show "offset_of L f + 24 < 2 ^ 32" using b by simp
  show "reserved_stack_size L \<le> offset_of L f" using b by simp
  show "reserved_stack_size L + 24 < 2 ^ 32" using b by simp
  show "f = g \<or> offset_of L f + 8 \<le> offset_of L g \<or> offset_of L g + 8 \<le> offset_of L f"
    using assms by (auto simp add: wf_layout_def)
qed

text \<open>Addresses of the members and of the two stack slots, from the base \<open>this - 16\<close>.\<close>

lemma rebase:
  "this + word_of_nat n = (this - 16) + (word_of_nat (n + 16) :: 64 word)"
  "this + word_of_nat n - 8 = (this - 16) + (word_of_nat (n + 8) :: 64 word)"
  "this + word_of_nat n - 16 = (this - 16) + (word_of_nat n :: 64 word)"
  by simp_all

lemma load_member_store_member:
  assumes "wf_layout L"
  shows "load64 (store64 m (this + word_of_nat (offset_of L f)) val) (this + word_of_nat (offset_of L g)) =
           (if f = g then val else load64 m (this + word_of_nat (offset_of L g)))"
proof -
  have "load64 (store64 m ((this - 16) + word_of_nat (offset_of L f + 16)) val)
          ((this - 16) + word_of_nat (offset_of L g + 16)) =
        (if offset_of L f + 16 = offset_of L g + 16 then val
         else load64 m ((this - 16) + word_of_nat (offset_of L g + 16)))"
    using wf_layout_bounds(1)[OF assms, of f] wf_layout_bounds(1)[OF assms, of g]
      wf_layout_bounds(4)[OF assms, of f g]
    by (intro load64_store64_at) auto
  moreover have "offset_of L f = offset_of L g \<longleftrightarrow> f = g"
    using wf_layout_bounds(4)[OF assms, of f g] by auto
  ultimately show ?thesis unfolding rebase(1)[of this] by simp
qed

lemma load_member_store_stack:
  assumes "wf_layout L"
  shows "load64 (store64 m (this + word_of_nat (reserved_stack_size L) - 8) val)
           (this + word_of_nat (offset_of L g)) = load64 m (this + word_of_nat (offset_of L g))"
    and "load64 (store64 m (this + word_of_nat (reserved_stack_size L) - 16) val)
           (this + word_of_nat (offset_of L g)) = load64 m (this + word_of_nat (offset_of L g))"
proof -
  have "load64 (store64 m ((this - 16) + word_of_nat (reserved_stack_size L + 8)) val)
          ((this - 16) + word_of_nat (offset_of L g + 16)) =
        (if reserved_stack_size L + 8 = offset_of L g + 16 then val
         else load64 m ((this - 16) + word_of_nat (offset_of L g + 16)))"
    using wf_layout_bounds(1,2)[OF assms, of g] wf_layout_bounds(3)[OF assms]
    by (intro load64_store64_at) auto
  thus "load64 (store64 m (this + word_of_nat (reserved_stack_size L) - 8) val)
           (this + word_of_nat (offset_of L g)) = load64 m (this + word_of_nat (offset_of L g))"
    unfolding rebase(1)[of this "offset_of L g"] rebase(2)[of this]
    using wf_layout_bounds(2)[OF assms, of g] by simp
  have "load64 (store64 m ((this - 16) + word_of_nat (reserved_stack_size L)) val)
          ((this - 16) + word_of_nat (offset_of L g + 16)) =
        (if reserved_stack_size L = offset_of L g + 16 then val
         else load64 m ((this - 16) + word_of_nat (offset_of L g + 16)))"
    using wf_layout_bounds(1,2)[OF assms, of g] wf_layout_bounds(3)[OF assms]
    by (intro load64_store64_at) auto
  thus "load64 (store64 m (this + word_of_nat (reserved_stack_size L) - 16) val)
           (this + word_of_nat (offset_of L g)) = load64 m (this + word_of_nat (offset_of L g))"
    unfolding rebase(1)[of this "offset_of L g"] rebase(3)[of this]
    using wf_layout_bounds(2)[OF assms, of g] by simp
qed

lemma load_stack_store_stack:
  assumes "wf_layout L"
  shows "load64 (store64 m (this + word_of_nat (reserved_stack_size L) - 16) val)
           (this + word_of_nat (reserved_stack_size L) - 8) =
         load64 m (this + word_of_nat (reserved_stack_size L) - 8)"
    and "load64 (store64 m (this + word_of_nat (reserved_stack_size L) - 8) val)
           (this + word_of_nat (reserved_stack_size L) - 8) = val"
    and "load64 (store64 m (this + word_of_nat (reserved_stack_size L) - 16) val)
           (this + word_of_nat (reserved_stack_size L) - 16) = val"
proof -
  have b: "reserved_stack_size L + 8 + 8 < 2 ^ 32" "reserved_stack_size L + 8 < 2 ^ 32"
    using wf_layout_bounds(3)[OF assms] by simp_all
  have "load64 (store64 m ((this - 16) + word_of_nat (reserved_stack_size L)) val)
          ((this - 16) + word_of_nat (reserved_stack_size L + 8)) =
        (if reserved_stack_size L = reserved_stack_size L + 8 then val
         else load64 m ((this - 16) + word_of_nat (reserved_stack_size L + 8)))"
    using b by (intro load64_store64_at) auto
  thus "load64 (store64 m (this + word_of_nat (reserved_stack_size L) - 16) val)
           (this + word_of_nat (reserved_stack_size L) - 8) =
         load64 m (this + word_of_nat (reserved_stack_size L) - 8)"
    unfolding rebase(2,3)[of this] by simp
  have "load64 (store64 m ((this - 16) + word_of_nat (reserved_stack_size L + 8)) val)
          ((this - 16) + word_of_nat (reserved_stack_size L + 8)) =
        (if reserved_stack_size L + 8 = reserved_stack_size L + 8 then val
         else load64 m ((this - 16) + word_of_nat (reserved_stack_size L + 8)))"
    using b by (intro load64_store64_at) auto
  thus "load64 (store64 m (this + word_of_nat (reserved_stack_size L) - 8) val)
           (this + word_of_nat (reserved_stack_size L) - 8) = val"
    unfolding rebase(2)[of this] by simp
  have "load64 (store64 m ((this - 16) + word_of_nat (reserved_stack_size L)) val)
          ((this - 16) + word_of_nat (reserved_stack_size L)) =
        (if reserved_stack_size L = reserved_stack_size L then val
         else load64 m ((this - 16) + word_of_nat (reserved_stack_size L)))"
    using b by (intro load64_store64_at) auto
  thus "load64 (store64 m (this + word_of_nat (reserved_stack_size L) - 16) val)
           (this + word_of_nat (reserved_stack_size L) - 16) = val"
    unfolding rebase(3)[of this] by simp
qed

lemma ea_fld:
  "regs \<sigma> RSP = this + word_of_nat (reserved_stack_size L) \<Longrightarrow>
     ea \<sigma> (fld L f) = this + word_of_nat (offset_of L f)"
  by (simp add: fld_def)

lemma xchg_effect:
  assumes wf: "wf_layout L" and rsp: "regs \<sigma> RSP = this + word_of_nat (reserved_stack_size L)"
  shows "\<exists>\<sigma>'. exec_instr P (XCHG_rm (G r) (fld L (v r))) \<sigma> = Some \<sigma>' \<and>
           regs \<sigma>' RSP = regs \<sigma> RSP \<and> rflags \<sigma>' = rflags \<sigma> \<and>
           (\<forall>s. regs \<sigma>' (G s) = (if s = r then member L this \<sigma> (v r) else regs \<sigma> (G s))) \<and>
           (\<forall>f. member L this \<sigma>' f = (if f = v r then regs \<sigma> (G r) else member L this \<sigma> f))"
  by (auto simp add: ea_fld[OF rsp] member_def load_member_store_member[OF wf])

lemma exchange_gprs_effect:
  assumes wf: "wf_layout L"
  shows "distinct rs \<Longrightarrow> regs \<sigma> RSP = this + word_of_nat (reserved_stack_size L) \<Longrightarrow>
         \<exists>\<sigma>'. exec_untrapped P (exchange_gprs L rs) \<sigma> = Some \<sigma>' \<and>
           regs \<sigma>' RSP = regs \<sigma> RSP \<and> rflags \<sigma>' = rflags \<sigma> \<and>
           (\<forall>r. regs \<sigma>' (G r) = (if r \<in> set rs then member L this \<sigma> (v r) else regs \<sigma> (G r))) \<and>
           (\<forall>r. member L this \<sigma>' (v r) = (if r \<in> set rs then regs \<sigma> (G r) else member L this \<sigma> (v r))) \<and>
           member L this \<sigma>' emu_rsp = member L this \<sigma> emu_rsp \<and>
           member L this \<sigma>' emu_rip = member L this \<sigma> emu_rip \<and>
           member L this \<sigma>' v_rflags = member L this \<sigma> v_rflags"
proof (induction rs arbitrary: \<sigma>)
  case Nil
  show ?case by (simp add: exchange_gprs_def)
next
  case (Cons r rs)
  obtain \<sigma>1 where s1: "exec_instr P (XCHG_rm (G r) (fld L (v r))) \<sigma> = Some \<sigma>1"
    and rsp1: "regs \<sigma>1 RSP = regs \<sigma> RSP" and fl1: "rflags \<sigma>1 = rflags \<sigma>"
    and g1: "\<And>s. regs \<sigma>1 (G s) = (if s = r then member L this \<sigma> (v r) else regs \<sigma> (G s))"
    and m1: "\<And>f. member L this \<sigma>1 f = (if f = v r then regs \<sigma> (G r) else member L this \<sigma> f)"
    using xchg_effect[OF wf Cons.prems(2), of P r] by blast
  have d: "distinct rs" and nr: "r \<notin> set rs" using Cons.prems(1) by simp_all
  have rsp1': "regs \<sigma>1 RSP = this + word_of_nat (reserved_stack_size L)"
    using rsp1 Cons.prems(2) by simp
  obtain \<sigma>2 where s2: "exec_untrapped P (exchange_gprs L rs) \<sigma>1 = Some \<sigma>2"
    and rsp2: "regs \<sigma>2 RSP = regs \<sigma>1 RSP" and fl2: "rflags \<sigma>2 = rflags \<sigma>1"
    and g2: "\<And>s. regs \<sigma>2 (G s) = (if s \<in> set rs then member L this \<sigma>1 (v s) else regs \<sigma>1 (G s))"
    and m2: "\<And>s. member L this \<sigma>2 (v s) = (if s \<in> set rs then regs \<sigma>1 (G s) else member L this \<sigma>1 (v s))"
    and o2: "member L this \<sigma>2 emu_rsp = member L this \<sigma>1 emu_rsp"
      "member L this \<sigma>2 emu_rip = member L this \<sigma>1 emu_rip"
      "member L this \<sigma>2 v_rflags = member L this \<sigma>1 v_rflags"
    using Cons.IH[OF d rsp1'] by blast
  have e: "exec_untrapped P (exchange_gprs L (r # rs)) \<sigma> = Some \<sigma>2"
    using s1 s2 by (simp add: exchange_gprs_def)
  show ?case
    unfolding e using nr by (auto simp add: rsp2 rsp1 fl2 fl1 g2 g1 m2 m1 o2)
qed

lemma exchange_flags_effect:
  assumes wf: "wf_layout L" and rsp: "regs \<sigma> RSP = this + word_of_nat (reserved_stack_size L)"
  shows "\<exists>\<sigma>'. exec_untrapped P (exchange_flags L) \<sigma> = Some \<sigma>' \<and> regs \<sigma>' = regs \<sigma> \<and>
           (\<forall>f. member L this \<sigma>' f =
                 (if f = v_rflags then pushfq_image P (rflags \<sigma>) else member L this \<sigma> f))"
proof -
  let ?top = "this + word_of_nat (reserved_stack_size L) :: 64 word"
  have a: "?top - 8 - 8 = ?top - 16" "?top - 8 + 8 = ?top" "?top - 16 + 8 = ?top - 8" by simp_all
  have c: "x + word_of_nat (reserved_stack_size L) + (word_of_nat (offset_of L v_rflags) - word_of_nat (reserved_stack_size L))
             = x + (word_of_nat (offset_of L v_rflags) :: 64 word)" for x
    by simp
  have r: "(regs \<sigma>)(RSP := ?top) = regs \<sigma>" using rsp by auto
  show ?thesis
    by (simp add: exchange_flags_def Let_def rsp a c r fld_def member_def
        load_member_store_member[OF wf] load_member_store_stack[OF wf] load_stack_store_stack[OF wf])
qed

lemma gprs_all: "r \<in> set gprs" and gprs_distinct: "distinct gprs"
  by (cases r; simp add: gprs_def) (simp add: gprs_def)

lemma invoke_asm_phases:
  "invoke_asm L this =
     switch_stack L this @ exchange_gprs L gprs @ exchange_flags L @
     [CALL_m (fld L emu_rip)] @ after_call L"
  by (simp add: invoke_asm_def switch_stack_def exchange_gprs_def exchange_flags_def
      after_call_def gprs_def)

lemma switch_stack_effect:
  assumes wf: "wf_layout L"
  shows "\<exists>\<sigma>'. exec_untrapped P (switch_stack L this) \<sigma> = Some \<sigma>' \<and>
           regs \<sigma>' RSP = this + word_of_nat (reserved_stack_size L) \<and>
           (\<forall>r. regs \<sigma>' (G r) = (if r = rax then regs \<sigma> RSP else regs \<sigma> (G r))) \<and>
           (\<forall>f. member L this \<sigma>' f = (if f = emu_rsp then regs \<sigma> RSP else member L this \<sigma> f))"
  by (simp add: switch_stack_def fld_def member_def load_member_store_member[OF wf])

lemma call_effect:
  assumes wf: "wf_layout L" and rsp: "regs \<sigma> RSP = this + word_of_nat (reserved_stack_size L)"
  shows "\<exists>\<sigma>c. exec_instr P (CALL_m (fld L emu_rip)) \<sigma> = native_code P (member L this \<sigma> emu_rip) \<sigma>c \<and>
           regs \<sigma>c RSP = this + word_of_nat (reserved_stack_size L) - 8 \<and>
           (\<forall>r. regs \<sigma>c (G r) = regs \<sigma> (G r)) \<and>
           (\<forall>f. member L this \<sigma>c f = member L this \<sigma> f)"
  by (rule exI[of _ "\<sigma>\<lparr>regs := (regs \<sigma>)(RSP := this + word_of_nat (reserved_stack_size L) - 8),
         mem := store64 (mem \<sigma>) (this + word_of_nat (reserved_stack_size L) - 8) (return_address P)\<rparr>"])
    (simp add: Let_def ea_fld[OF rsp] rsp member_def load_member_store_stack[OF wf])

lemma after_call_effect:
  assumes wf: "wf_layout L" and rsp: "regs \<sigma>r RSP = this + word_of_nat (reserved_stack_size L)"
  shows "\<exists>\<sigma>'. exec_untrapped P (after_call L) \<sigma>r = Some \<sigma>' \<and>
           regs \<sigma>' RSP = member L this \<sigma>r emu_rsp \<and>
           (\<forall>r. regs \<sigma>' (G r) = member L this \<sigma>r (v r)) \<and>
           (\<forall>r. member L this \<sigma>' (v r) = regs \<sigma>r (G r)) \<and>
           member L this \<sigma>' emu_rsp = member L this \<sigma>r emu_rsp \<and>
           member L this \<sigma>' emu_rip = member L this \<sigma>r emu_rip \<and>
           member L this \<sigma>' v_rflags = pushfq_image P (rflags \<sigma>r)"
proof -
  obtain \<sigma>1 where s1: "exec_untrapped P (exchange_flags L) \<sigma>r = Some \<sigma>1" and r1: "regs \<sigma>1 = regs \<sigma>r"
    and m1: "\<And>f. member L this \<sigma>1 f =
                 (if f = v_rflags then pushfq_image P (rflags \<sigma>r) else member L this \<sigma>r f)"
    using exchange_flags_effect[OF wf rsp, of P] by blast
  have rsp1: "regs \<sigma>1 RSP = this + word_of_nat (reserved_stack_size L)" using r1 rsp by simp
  obtain \<sigma>2 where s2: "exec_untrapped P (exchange_gprs L gprs) \<sigma>1 = Some \<sigma>2"
    and rsp2: "regs \<sigma>2 RSP = regs \<sigma>1 RSP"
    and g2: "\<And>r. regs \<sigma>2 (G r) = member L this \<sigma>1 (v r)"
    and m2: "\<And>r. member L this \<sigma>2 (v r) = regs \<sigma>1 (G r)"
    and o2: "member L this \<sigma>2 emu_rsp = member L this \<sigma>1 emu_rsp"
      "member L this \<sigma>2 emu_rip = member L this \<sigma>1 emu_rip"
      "member L this \<sigma>2 v_rflags = member L this \<sigma>1 v_rflags"
    using exchange_gprs_effect[OF wf gprs_distinct rsp1, of P] by (auto simp add: gprs_all)
  define sfin where "sfin = \<sigma>2\<lparr>regs := (regs \<sigma>2)(RSP := member L this \<sigma>2 emu_rsp)\<rparr>"
  have rsp2': "regs \<sigma>2 RSP = this + word_of_nat (reserved_stack_size L)" using rsp2 rsp1 by simp
  have s3: "exec_untrapped P [MOV_rm RSP (fld L emu_rsp)] \<sigma>2 = Some sfin"
    unfolding sfin_def member_def by (simp add: ea_fld[OF rsp2'] del: ea.simps)
  have e: "exec_untrapped P (after_call L) \<sigma>r = Some sfin"
    by (simp add: after_call_def exec_append s1 s2 s3 del: exec_untrapped.simps)
  have mem3: "member L this sfin f = member L this \<sigma>2 f" for f
    by (simp add: sfin_def member_def)
  show ?thesis
    unfolding e by (simp add: mem3 m2 o2 m1 r1) (simp add: sfin_def g2 o2 m1)
qed

lemma before_call_effect:
  assumes wf: "wf_layout L"
  shows "\<exists>\<sigma>c. exec_untrapped P (invoke_asm L this)
                  (\<sigma>\<lparr>mem := store64 (mem \<sigma>) (this + word_of_nat (offset_of L emu_rip)) rp\<rparr>) =
                (case native_code P rp \<sigma>c of None \<Rightarrow> None | Some \<sigma>r \<Rightarrow> exec_untrapped P (after_call L) \<sigma>r) \<and>
           regs \<sigma>c RSP = this + word_of_nat (reserved_stack_size L) - 8 \<and>
           (\<forall>r. regs \<sigma>c (G r) = member L this \<sigma> (v r)) \<and>
           (\<forall>r. member L this \<sigma>c (v r) = (if r = rax then regs \<sigma> RSP else regs \<sigma> (G r))) \<and>
           member L this \<sigma>c emu_rsp = regs \<sigma> RSP \<and>
           member L this \<sigma>c emu_rip = rp"
proof -
  define sini where "sini = \<sigma>\<lparr>mem := store64 (mem \<sigma>) (this + word_of_nat (offset_of L emu_rip)) rp\<rparr>"
  have r0: "regs sini = regs \<sigma>"
    and m0: "\<And>f. member L this sini f = (if f = emu_rip then rp else member L this \<sigma> f)"
    by (auto simp add: sini_def member_def load_member_store_member[OF wf])
  obtain \<sigma>1 where s1: "exec_untrapped P (switch_stack L this) sini = Some \<sigma>1"
    and rsp1: "regs \<sigma>1 RSP = this + word_of_nat (reserved_stack_size L)"
    and g1: "\<And>r. regs \<sigma>1 (G r) = (if r = rax then regs sini RSP else regs sini (G r))"
    and m1: "\<And>f. member L this \<sigma>1 f = (if f = emu_rsp then regs sini RSP else member L this sini f)"
    using switch_stack_effect[OF wf, of P this sini] by blast
  obtain \<sigma>2 where s2: "exec_untrapped P (exchange_gprs L gprs) \<sigma>1 = Some \<sigma>2"
    and rsp2: "regs \<sigma>2 RSP = regs \<sigma>1 RSP"
    and g2: "\<And>r. regs \<sigma>2 (G r) = member L this \<sigma>1 (v r)"
    and m2: "\<And>r. member L this \<sigma>2 (v r) = regs \<sigma>1 (G r)"
    and o2: "member L this \<sigma>2 emu_rsp = member L this \<sigma>1 emu_rsp"
      "member L this \<sigma>2 emu_rip = member L this \<sigma>1 emu_rip"
    using exchange_gprs_effect[OF wf gprs_distinct rsp1, of P] by (auto simp add: gprs_all)
  have rsp2': "regs \<sigma>2 RSP = this + word_of_nat (reserved_stack_size L)" using rsp2 rsp1 by simp
  obtain \<sigma>3 where s3: "exec_untrapped P (exchange_flags L) \<sigma>2 = Some \<sigma>3" and r3: "regs \<sigma>3 = regs \<sigma>2"
    and m3: "\<And>f. member L this \<sigma>3 f =
                 (if f = v_rflags then pushfq_image P (rflags \<sigma>2) else member L this \<sigma>2 f)"
    using exchange_flags_effect[OF wf rsp2', of P] by blast
  have rsp3: "regs \<sigma>3 RSP = this + word_of_nat (reserved_stack_size L)" using r3 rsp2' by simp
  obtain \<sigma>c where s4: "exec_instr P (CALL_m (fld L emu_rip)) \<sigma>3 = native_code P (member L this \<sigma>3 emu_rip) \<sigma>c"
    and rspc: "regs \<sigma>c RSP = this + word_of_nat (reserved_stack_size L) - 8"
    and gc: "\<And>r. regs \<sigma>c (G r) = regs \<sigma>3 (G r)"
    and mc: "\<And>f. member L this \<sigma>c f = member L this \<sigma>3 f"
    using call_effect[OF wf rsp3, of P] by blast
  have rip: "member L this \<sigma>3 emu_rip = rp" by (simp add: m3 o2 m1 m0)
  have "exec_untrapped P (invoke_asm L this)
            (\<sigma>\<lparr>mem := store64 (mem \<sigma>) (this + word_of_nat (offset_of L emu_rip)) rp\<rparr>) =
          (case native_code P rp \<sigma>c of None \<Rightarrow> None | Some \<sigma>r \<Rightarrow> exec_untrapped P (after_call L) \<sigma>r)"
    unfolding invoke_asm_phases sini_def[symmetric]
    by (simp add: exec_append s1 s2 s3 s4 rip del: exec_instr.simps)
  moreover have "\<And>r. regs \<sigma>c (G r) = member L this \<sigma> (v r)"
    by (simp add: gc r3 g2 m1 m0)
  moreover have "\<And>r. member L this \<sigma>c (v r) = (if r = rax then regs \<sigma> RSP else regs \<sigma> (G r))"
    by (simp add: mc m3 m2 g1 r0)
  moreover have "member L this \<sigma>c emu_rsp = regs \<sigma> RSP"
    by (simp add: mc m3 o2 m1 r0)
  moreover have "member L this \<sigma>c emu_rip = rp"
    by (simp add: mc rip)
  ultimately show ?thesis using rspc by blast
qed

text \<open>
  Where the exchange of the flags takes the new flags from: \<^verbatim>\<open>push [rsp - sd] emulator.v_rflags\<close>
  runs after \<^verbatim>\<open>pushfq\<close> has lowered \<^verbatim>\<open>rsp\<close> by eight, so it reads the eight bytes below
  \<^verbatim>\<open>v_rflags\<close>; the \<^verbatim>\<open>pop\<close> into the same operand writes \<^verbatim>\<open>v_rflags\<close> itself.
\<close>

lemma exchange_flags_source:
  assumes wf: "wf_layout L" and rsp: "regs \<sigma> RSP = this + word_of_nat (reserved_stack_size L)"
    and below: "reserved_stack_size L + 8 \<le> offset_of L v_rflags"
  shows "\<exists>\<sigma>'. exec_untrapped P (exchange_flags L) \<sigma> = Some \<sigma>' \<and>
           rflags \<sigma>' = popfq_flags P (rflags \<sigma>)
                         (load64 (mem \<sigma>) (this + word_of_nat (offset_of L v_rflags) - 8)) \<and>
           member L this \<sigma>' v_rflags = pushfq_image P (rflags \<sigma>)"
proof -
  let ?top = "this + word_of_nat (reserved_stack_size L) :: 64 word"
  let ?src = "this + word_of_nat (offset_of L v_rflags) - 8 :: 64 word"
  have a: "?top - 8 - 8 = ?top - 16" "?top - 8 + 8 = ?top" "?top - 16 + 8 = ?top - 8" by simp_all
  have c: "x + word_of_nat (reserved_stack_size L) + (word_of_nat (offset_of L v_rflags) - word_of_nat (reserved_stack_size L))
             = x + (word_of_nat (offset_of L v_rflags) :: 64 word)" for x
    by simp
  have c': "?top - 8 + (word_of_nat (offset_of L v_rflags) - word_of_nat (reserved_stack_size L)) = ?src"
    by simp
  have "load64 (store64 m ((this - 16) + word_of_nat (reserved_stack_size L + 8)) val)
          ((this - 16) + word_of_nat (offset_of L v_rflags + 8)) =
        (if reserved_stack_size L + 8 = offset_of L v_rflags + 8 then val
         else load64 m ((this - 16) + word_of_nat (offset_of L v_rflags + 8)))" for m val
    using wf_layout_bounds(1)[OF wf, of v_rflags] wf_layout_bounds(3)[OF wf] below
    by (intro load64_store64_at) auto
  hence src: "load64 (store64 m (?top - 8) val) ?src = load64 m ?src" for m val
    unfolding rebase(2)[of this] using below by simp
  have r: "(regs \<sigma>)(RSP := ?top) = regs \<sigma>" using rsp by auto
  show ?thesis
    by (simp add: exchange_flags_def Let_def rsp a c c' r src fld_def member_def
        load_member_store_member[OF wf] load_member_store_stack[OF wf] load_stack_store_stack[OF wf])
qed

lemma example_layout_flags_source:
  "this + word_of_nat (offset_of example_layout v_rflags) - 8 =
     (this + word_of_nat (offset_of example_layout v_r15) :: 64 word)"
  by (simp add: example_layout_def)

section \<open>Properties of the block with the trap\<close>

lemma exec_Some_untrapped:
  "exec P is \<sigma> = Some \<sigma>' \<Longrightarrow> exec_untrapped P is \<sigma> = Some \<sigma>'"
  by (induction "is" arbitrary: \<sigma>) (auto split: if_splits option.splits)

lemma exec_trap_append:
  "exec P (xs @ ys) \<sigma> = (case exec P xs \<sigma> of None \<Rightarrow> None | Some \<sigma>' \<Rightarrow> exec P ys \<sigma>')"
  by (induction xs arbitrary: \<sigma>) (auto split: option.splits)

lemma exec_first_trap:
  "bit (rflags \<sigma>) 8 \<Longrightarrow> exec P (i # is) \<sigma> = None"
  by simp

lemma exchange_gprs_runs:
  "\<not> bit (rflags \<sigma>) 8 \<Longrightarrow>
     \<exists>\<sigma>'. exec P (exchange_gprs L rs) \<sigma> = Some \<sigma>' \<and> rflags \<sigma>' = rflags \<sigma>"
proof (induction rs arbitrary: \<sigma>)
  case Nil
  show ?case by (simp add: exchange_gprs_def)
next
  case (Cons r rs)
  obtain \<sigma>1 where s1: "exec_instr P (XCHG_rm (G r) (fld L (v r))) \<sigma> = Some \<sigma>1"
    and f1: "rflags \<sigma>1 = rflags \<sigma>"
    by simp
  have "\<not> bit (rflags \<sigma>1) 8" using f1 Cons.prems by simp
  then obtain \<sigma>2 where s2: "exec P (exchange_gprs L rs) \<sigma>1 = Some \<sigma>2" and f2: "rflags \<sigma>2 = rflags \<sigma>1"
    using Cons.IH by blast
  have "exec P (exchange_gprs L (r # rs)) \<sigma> = Some \<sigma>2"
    using s1 s2 Cons.prems by (simp add: exchange_gprs_def)
  thus ?case using f1 f2 by simp
qed

lemma switch_stack_runs:
  assumes tf: "tf_faithful P" and nt: "\<not> bit (rflags \<sigma>) 8"
  shows "\<exists>\<sigma>'. exec P (switch_stack L this) \<sigma> = Some \<sigma>' \<and> \<not> bit (rflags \<sigma>') 8"
proof -
  have a: "bit (add_flags P old a b) 8 = bit old 8" for old a b
    using tf by (simp add: tf_faithful_def)
  show ?thesis using nt by (simp add: switch_stack_def a)
qed

text \<open>
  The exchange of the flags reaches its end exactly when bit 8 of the eight bytes below
  \<^verbatim>\<open>v_rflags\<close> is clear: those are the flags that \<^verbatim>\<open>popfq\<close> loads.
\<close>

lemma exchange_flags_runs:
  assumes wf: "wf_layout L" and fb: "flags_behind_r15 L" and tf: "tf_faithful P"
    and rsp: "regs \<sigma> RSP = this + word_of_nat (reserved_stack_size L)"
    and nt: "\<not> bit (rflags \<sigma>) 8"
  shows "exec P (exchange_flags L) \<sigma> = None \<longleftrightarrow> bit (member L this \<sigma> v_r15) 8"
    and "\<not> bit (member L this \<sigma> v_r15) 8 \<Longrightarrow>
           \<exists>\<sigma>'. exec P (exchange_flags L) \<sigma> = Some \<sigma>' \<and> \<not> bit (rflags \<sigma>') 8"
proof -
  let ?top = "this + word_of_nat (reserved_stack_size L) :: 64 word"
  have p: "bit (popfq_flags P old val) 8 = bit val 8" for old val
    using tf by (simp add: tf_faithful_def)
  have a: "?top - 8 - 8 = ?top - 16" "?top - 8 + 8 = ?top" "?top - 16 + 8 = ?top - 8" by simp_all
  have src: "?top - 8 + (word_of_nat (offset_of L v_rflags) - word_of_nat (reserved_stack_size L))
               = this + word_of_nat (offset_of L v_r15)"
    using fb by (simp add: flags_behind_r15_def)
  have c: "x + word_of_nat (reserved_stack_size L) + (word_of_nat (offset_of L v_rflags) - word_of_nat (reserved_stack_size L))
             = x + (word_of_nat (offset_of L v_rflags) :: 64 word)" for x
    by simp
  have e: "exec P (exchange_flags L) \<sigma> =
             (if bit (member L this \<sigma> v_r15) 8 then None
              else exec P [POP_m (fld L v_rflags)]
                (\<sigma>\<lparr>regs := (regs \<sigma>)(RSP := ?top - 8),
                   mem := store64 (store64 (mem \<sigma>) (?top - 8) (pushfq_image P (rflags \<sigma>))) (?top - 16)
                            (member L this \<sigma> v_r15),
                   rflags := popfq_flags P (rflags \<sigma>) (member L this \<sigma> v_r15)\<rparr>))"
    using nt
    by (simp add: exchange_flags_def Let_def rsp a src p fld_def member_def
        load_member_store_stack[OF wf] load_stack_store_stack[OF wf])
  show "exec P (exchange_flags L) \<sigma> = None \<longleftrightarrow> bit (member L this \<sigma> v_r15) 8"
    unfolding e by (simp add: p Let_def)
  show "\<not> bit (member L this \<sigma> v_r15) 8 \<Longrightarrow>
           \<exists>\<sigma>'. exec P (exchange_flags L) \<sigma> = Some \<sigma>' \<and> \<not> bit (rflags \<sigma>') 8"
    unfolding e by (simp add: p Let_def)
qed

lemma call_runs:
  assumes wf: "wf_layout L" and rsp: "regs \<sigma> RSP = this + word_of_nat (reserved_stack_size L)"
  shows "\<exists>\<sigma>c. exec_instr P (CALL_m (fld L emu_rip)) \<sigma> = native_code P (member L this \<sigma> emu_rip) \<sigma>c \<and>
           regs \<sigma>c RSP = this + word_of_nat (reserved_stack_size L) - 8 \<and>
           rflags \<sigma>c = rflags \<sigma> \<and>
           (\<forall>f. member L this \<sigma>c f = member L this \<sigma> f)"
  by (rule exI[of _ "\<sigma>\<lparr>regs := (regs \<sigma>)(RSP := this + word_of_nat (reserved_stack_size L) - 8),
         mem := store64 (mem \<sigma>) (this + word_of_nat (reserved_stack_size L) - 8) (return_address P)\<rparr>"])
    (simp add: Let_def ea_fld[OF rsp] rsp member_def load_member_store_stack[OF wf])

lemma after_call_runs:
  assumes wf: "wf_layout L" and fb: "flags_behind_r15 L" and tf: "tf_faithful P"
    and rsp: "regs \<sigma>r RSP = this + word_of_nat (reserved_stack_size L)"
    and nt: "\<not> bit (rflags \<sigma>r) 8"
    and r15: "\<not> bit (member L this \<sigma>r v_r15) 8"
  shows "\<exists>\<sigma>'. exec P (after_call L) \<sigma>r = Some \<sigma>'"
proof -
  obtain \<sigma>1 where s1: "exec P (exchange_flags L) \<sigma>r = Some \<sigma>1" and n1: "\<not> bit (rflags \<sigma>1) 8"
    using exchange_flags_runs(2)[OF wf fb tf rsp nt r15] by blast
  obtain \<sigma>2 where s2: "exec P (exchange_gprs L gprs) \<sigma>1 = Some \<sigma>2" and f2: "rflags \<sigma>2 = rflags \<sigma>1"
    using exchange_gprs_runs[OF n1] by blast
  have "\<exists>\<sigma>'. exec P [MOV_rm RSP (fld L emu_rsp)] \<sigma>2 = Some \<sigma>'"
    using n1 f2 by simp
  thus ?thesis by (simp add: after_call_def exec_trap_append s1 s2 del: exec.simps)
qed

lemma invoke_Some_decompose:
  assumes wf: "wf_layout L" and inv: "invoke P L this rp \<sigma> = Some \<sigma>'"
  shows "\<exists>\<sigma>c \<sigma>r. native_code P rp \<sigma>c = Some \<sigma>r \<and>
           exec_untrapped P (after_call L) \<sigma>r = Some \<sigma>' \<and>
           regs \<sigma>c RSP = this + word_of_nat (reserved_stack_size L) - 8 \<and>
           (\<forall>r. regs \<sigma>c (G r) = member L this \<sigma> (v r)) \<and>
           (\<forall>r. member L this \<sigma>c (v r) = (if r = rax then regs \<sigma> RSP else regs \<sigma> (G r))) \<and>
           member L this \<sigma>c emu_rsp = regs \<sigma> RSP \<and>
           member L this \<sigma>c emu_rip = rp"
proof -
  let ?\<sigma>i = "\<sigma>\<lparr>mem := store64 (mem \<sigma>) (this + word_of_nat (offset_of L emu_rip)) rp\<rparr>"
  have u: "exec_untrapped P (invoke_asm L this) ?\<sigma>i = Some \<sigma>'"
    using inv unfolding invoke_def by (rule exec_Some_untrapped)
  obtain \<sigma>c where d: "exec_untrapped P (invoke_asm L this) ?\<sigma>i =
        (case native_code P rp \<sigma>c of None \<Rightarrow> None | Some \<sigma>r \<Rightarrow> exec_untrapped P (after_call L) \<sigma>r)"
    and facts: "regs \<sigma>c RSP = this + word_of_nat (reserved_stack_size L) - 8"
      "\<And>r. regs \<sigma>c (G r) = member L this \<sigma> (v r)"
      "\<And>r. member L this \<sigma>c (v r) = (if r = rax then regs \<sigma> RSP else regs \<sigma> (G r))"
      "member L this \<sigma>c emu_rsp = regs \<sigma> RSP"
      "member L this \<sigma>c emu_rip = rp"
    using before_call_effect[OF wf, where P = P and this = this and rp = rp and \<sigma> = \<sigma>] by blast
  obtain \<sigma>r where "native_code P rp \<sigma>c = Some \<sigma>r" and "exec_untrapped P (after_call L) \<sigma>r = Some \<sigma>'"
    using u d by (auto split: option.splits)
  thus ?thesis using facts by blast
qed

text \<open>
  When \<^verbatim>\<open>invoke\<close> returns: the trap flag is clear at the start, the flags that the two
  \<^verbatim>\<open>popfq\<close> load (the caller's \<^verbatim>\<open>r15\<close>, which is what the eight bytes below \<^verbatim>\<open>v_rflags\<close> hold
  after the exchange of the registers) have bit 8 clear, and the routine returns with its
  return address popped, the trap flag clear and the slot \<^verbatim>\<open>v_r15\<close> as it was.
\<close>

lemma invoke_returns:
  assumes wf: "wf_layout L" and fb: "flags_behind_r15 L" and tf: "tf_faithful P"
    and nt: "\<not> bit (rflags \<sigma>) 8" and r15: "\<not> bit (regs \<sigma> R15) 8"
    and routine: "\<And>\<sigma>c. regs \<sigma>c RSP = this + word_of_nat (reserved_stack_size L) - 8 \<Longrightarrow>
        \<not> bit (rflags \<sigma>c) 8 \<Longrightarrow>
        \<exists>\<sigma>r. native_code P rp \<sigma>c = Some \<sigma>r \<and> regs \<sigma>r RSP = regs \<sigma>c RSP + 8 \<and>
             \<not> bit (rflags \<sigma>r) 8 \<and> member L this \<sigma>r v_r15 = member L this \<sigma>c v_r15"
  shows "\<exists>\<sigma>'. invoke P L this rp \<sigma> = Some \<sigma>'"
proof -
  define sini where "sini = \<sigma>\<lparr>mem := store64 (mem \<sigma>) (this + word_of_nat (offset_of L emu_rip)) rp\<rparr>"
  have r0: "regs sini = regs \<sigma>" and n0: "\<not> bit (rflags sini) 8"
    and m0: "\<And>f. member L this sini f = (if f = emu_rip then rp else member L this \<sigma> f)"
    using nt by (auto simp add: sini_def member_def load_member_store_member[OF wf])
  obtain \<sigma>1 where s1: "exec P (switch_stack L this) sini = Some \<sigma>1" and n1: "\<not> bit (rflags \<sigma>1) 8"
    using switch_stack_runs[OF tf n0] by blast
  have u1: "exec_untrapped P (switch_stack L this) sini = Some \<sigma>1"
    using s1 by (rule exec_Some_untrapped)
  have rsp1: "regs \<sigma>1 RSP = this + word_of_nat (reserved_stack_size L)"
    and g1: "\<And>r. regs \<sigma>1 (G r) = (if r = rax then regs sini RSP else regs sini (G r))"
    and m1: "\<And>f. member L this \<sigma>1 f = (if f = emu_rsp then regs sini RSP else member L this sini f)"
    using switch_stack_effect[OF wf, of P this sini] u1 by auto
  obtain \<sigma>2 where s2: "exec P (exchange_gprs L gprs) \<sigma>1 = Some \<sigma>2" and f2: "rflags \<sigma>2 = rflags \<sigma>1"
    using exchange_gprs_runs[OF n1] by blast
  have u2: "exec_untrapped P (exchange_gprs L gprs) \<sigma>1 = Some \<sigma>2"
    using s2 by (rule exec_Some_untrapped)
  have rsp2: "regs \<sigma>2 RSP = this + word_of_nat (reserved_stack_size L)"
    and m2: "\<And>r. member L this \<sigma>2 (v r) = regs \<sigma>1 (G r)"
    and o2: "member L this \<sigma>2 emu_rip = member L this \<sigma>1 emu_rip"
    using exchange_gprs_effect[OF wf gprs_distinct rsp1, of P] u2 rsp1 by (auto simp add: gprs_all)
  have n2: "\<not> bit (rflags \<sigma>2) 8" using f2 n1 by simp
  have c2: "\<not> bit (member L this \<sigma>2 v_r15) 8" using r15 by (simp add: m2 g1 r0)
  obtain \<sigma>3 where s3: "exec P (exchange_flags L) \<sigma>2 = Some \<sigma>3" and n3: "\<not> bit (rflags \<sigma>3) 8"
    using exchange_flags_runs(2)[OF wf fb tf rsp2 n2 c2] by blast
  have u3: "exec_untrapped P (exchange_flags L) \<sigma>2 = Some \<sigma>3"
    using s3 by (rule exec_Some_untrapped)
  have r3: "regs \<sigma>3 = regs \<sigma>2"
    and m3: "\<And>f. member L this \<sigma>3 f =
                 (if f = v_rflags then pushfq_image P (rflags \<sigma>2) else member L this \<sigma>2 f)"
    using exchange_flags_effect[OF wf rsp2, of P] u3 by auto
  have rsp3: "regs \<sigma>3 RSP = this + word_of_nat (reserved_stack_size L)" using r3 rsp2 by simp
  obtain \<sigma>c where s4: "exec_instr P (CALL_m (fld L emu_rip)) \<sigma>3 = native_code P (member L this \<sigma>3 emu_rip) \<sigma>c"
    and rspc: "regs \<sigma>c RSP = this + word_of_nat (reserved_stack_size L) - 8"
    and fc: "rflags \<sigma>c = rflags \<sigma>3"
    and mc: "\<And>f. member L this \<sigma>c f = member L this \<sigma>3 f"
    using call_runs[OF wf rsp3, of P] by blast
  have rip: "member L this \<sigma>3 emu_rip = rp" by (simp add: m3 o2 m1 m0)
  have nc: "\<not> bit (rflags \<sigma>c) 8" using fc n3 by simp
  obtain \<sigma>r where nr: "native_code P rp \<sigma>c = Some \<sigma>r" and rspr: "regs \<sigma>r RSP = regs \<sigma>c RSP + 8"
    and nfr: "\<not> bit (rflags \<sigma>r) 8" and kr: "member L this \<sigma>r v_r15 = member L this \<sigma>c v_r15"
    using routine[OF rspc nc] by blast
  have rspr': "regs \<sigma>r RSP = this + word_of_nat (reserved_stack_size L)" using rspr rspc by simp
  have cr: "\<not> bit (member L this \<sigma>r v_r15) 8" using c2 by (simp add: kr mc m3)
  obtain \<sigma>' where s5: "exec P (after_call L) \<sigma>r = Some \<sigma>'"
    using after_call_runs[OF wf fb tf rspr' nfr cr] by blast
  have "exec P ([CALL_m (fld L emu_rip)] @ after_call L) \<sigma>3 = Some \<sigma>'"
    using n3 by (simp add: s4 rip nr s5 del: exec_instr.simps)
  hence "invoke P L this rp \<sigma> = Some \<sigma>'"
    unfolding invoke_def invoke_asm_phases sini_def[symmetric]
    by (simp add: exec_trap_append s1 s2 s3 del: exec.simps append.simps)
  thus ?thesis by blast
qed

text \<open>And when it does not: bit 8 of the caller's \<^verbatim>\<open>r15\<close> is set.\<close>

lemma invoke_trapped:
  assumes wf: "wf_layout L" and fb: "flags_behind_r15 L" and tf: "tf_faithful P"
    and nt: "\<not> bit (rflags \<sigma>) 8" and r15: "bit (regs \<sigma> R15) 8"
  shows "invoke P L this rp \<sigma> = None"
proof -
  define sini where "sini = \<sigma>\<lparr>mem := store64 (mem \<sigma>) (this + word_of_nat (offset_of L emu_rip)) rp\<rparr>"
  have r0: "regs sini = regs \<sigma>" and n0: "\<not> bit (rflags sini) 8"
    using nt by (auto simp add: sini_def)
  obtain \<sigma>1 where s1: "exec P (switch_stack L this) sini = Some \<sigma>1" and n1: "\<not> bit (rflags \<sigma>1) 8"
    using switch_stack_runs[OF tf n0] by blast
  have u1: "exec_untrapped P (switch_stack L this) sini = Some \<sigma>1"
    using s1 by (rule exec_Some_untrapped)
  have rsp1: "regs \<sigma>1 RSP = this + word_of_nat (reserved_stack_size L)"
    and g1: "\<And>r. regs \<sigma>1 (G r) = (if r = rax then regs sini RSP else regs sini (G r))"
    using switch_stack_effect[OF wf, of P this sini] u1 by auto
  obtain \<sigma>2 where s2: "exec P (exchange_gprs L gprs) \<sigma>1 = Some \<sigma>2" and f2: "rflags \<sigma>2 = rflags \<sigma>1"
    using exchange_gprs_runs[OF n1] by blast
  have u2: "exec_untrapped P (exchange_gprs L gprs) \<sigma>1 = Some \<sigma>2"
    using s2 by (rule exec_Some_untrapped)
  have rsp2: "regs \<sigma>2 RSP = this + word_of_nat (reserved_stack_size L)"
    and m2: "\<And>r. member L this \<sigma>2 (v r) = regs \<sigma>1 (G r)"
    using exchange_gprs_effect[OF wf gprs_distinct rsp1, of P] u2 rsp1 by (auto simp add: gprs_all)
  have n2: "\<not> bit (rflags \<sigma>2) 8" using f2 n1 by simp
  have c2: "bit (member L this \<sigma>2 v_r15) 8" using r15 by (simp add: m2 g1 r0)
  have s3: "exec P (exchange_flags L) \<sigma>2 = None"
    using exchange_flags_runs(1)[OF wf fb tf rsp2 n2] c2 by simp
  show ?thesis
    unfolding invoke_def invoke_asm_phases sini_def[symmetric]
    by (simp add: exec_trap_append s1 s2 s3 del: exec.simps append.simps)
qed

section \<open>Properties of \<^verbatim>\<open>invoke\<close>\<close>

lemma tf_faithful_example: "tf_faithful (example_platform routines)"
proof -
  have m1: "\<not> bit (0x8D5 :: 64 word) 8" and m2: "bit (0x244DD5 :: 64 word) 8"
    and m3: "bit (0x3D4DD5 :: 64 word) 8"
    by simp_all
  have f: "bit (flag_bit c n) 8 \<longleftrightarrow> c \<and> n = 8" for c n
    by (auto simp add: flag_bit_def bit_exp_iff)
  show ?thesis
    by (simp add: tf_faithful_def example_platform_def amd64_add_flags_def amd64_popfq_flags_def
        Let_def bit_or_iff bit_and_iff bit_not_iff f m1 m2 m3)
qed

lemma flags_behind_r15_example: "flags_behind_r15 example_layout"
  by (simp add: flags_behind_r15_def example_layout_def)

lemma example_state_clear:
  "\<not> bit (rflags example_state) 8" "\<not> bit (regs example_state R15) 8"
  "regs example_state RSP = 0x7000" "regs example_state RAX = 1"
  by (simp_all add: example_state_def)

lemma invoke_exit:
  assumes wf: "wf_layout L" and inv: "invoke P L this rp \<sigma> = Some \<sigma>'"
  shows "\<exists>\<sigma>c \<sigma>r. native_code P rp \<sigma>c = Some \<sigma>r \<and>
           regs \<sigma>c RSP = this + word_of_nat (reserved_stack_size L) - 8 \<and>
           (\<forall>r. regs \<sigma>c (G r) = member L this \<sigma> (v r)) \<and>
           (\<forall>r. member L this \<sigma>c (v r) = (if r = rax then regs \<sigma> RSP else regs \<sigma> (G r))) \<and>
           member L this \<sigma>c emu_rsp = regs \<sigma> RSP \<and>
           (regs \<sigma>r RSP = this + word_of_nat (reserved_stack_size L) \<longrightarrow>
              regs \<sigma>' RSP = member L this \<sigma>r emu_rsp \<and>
              member L this \<sigma>' emu_rsp = member L this \<sigma>r emu_rsp \<and>
              (\<forall>r. regs \<sigma>' (G r) = member L this \<sigma>r (v r)) \<and>
              (\<forall>r. member L this \<sigma>' (v r) = regs \<sigma>r (G r)))"
proof -
  obtain \<sigma>c \<sigma>r where nr: "native_code P rp \<sigma>c = Some \<sigma>r"
    and ac: "exec_untrapped P (after_call L) \<sigma>r = Some \<sigma>'"
    and facts: "regs \<sigma>c RSP = this + word_of_nat (reserved_stack_size L) - 8"
      "\<And>r. regs \<sigma>c (G r) = member L this \<sigma> (v r)"
      "\<And>r. member L this \<sigma>c (v r) = (if r = rax then regs \<sigma> RSP else regs \<sigma> (G r))"
      "member L this \<sigma>c emu_rsp = regs \<sigma> RSP"
    using invoke_Some_decompose[OF wf inv] by blast
  have "regs \<sigma>r RSP = this + word_of_nat (reserved_stack_size L) \<Longrightarrow>
          regs \<sigma>' RSP = member L this \<sigma>r emu_rsp \<and>
          member L this \<sigma>' emu_rsp = member L this \<sigma>r emu_rsp \<and>
          (\<forall>r. regs \<sigma>' (G r) = member L this \<sigma>r (v r)) \<and>
          (\<forall>r. member L this \<sigma>' (v r) = regs \<sigma>r (G r))"
    using after_call_effect[OF wf, of \<sigma>r this P] ac by auto
  thus ?thesis using nr facts by blast
qed

lemma invoke_well_behaved:
  assumes wf: "wf_layout L" and rk: "returns_keeping P rp L this F"
    and inv: "invoke P L this rp \<sigma> = Some \<sigma>'"
  shows "emu_rsp \<in> F \<Longrightarrow> regs \<sigma>' RSP = regs \<sigma> RSP \<and> member L this \<sigma>' emu_rsp = regs \<sigma> RSP"
    and "v r \<in> F \<Longrightarrow> regs \<sigma>' (G r) = (if r = rax then regs \<sigma> RSP else regs \<sigma> (G r))"
proof -
  obtain \<sigma>c \<sigma>r where nr: "native_code P rp \<sigma>c = Some \<sigma>r"
    and rspc: "regs \<sigma>c RSP = this + word_of_nat (reserved_stack_size L) - 8"
    and mc: "\<And>r. member L this \<sigma>c (v r) = (if r = rax then regs \<sigma> RSP else regs \<sigma> (G r))"
    and sc: "member L this \<sigma>c emu_rsp = regs \<sigma> RSP"
    and ex: "regs \<sigma>r RSP = this + word_of_nat (reserved_stack_size L) \<longrightarrow>
              regs \<sigma>' RSP = member L this \<sigma>r emu_rsp \<and>
              member L this \<sigma>' emu_rsp = member L this \<sigma>r emu_rsp \<and>
              (\<forall>r. regs \<sigma>' (G r) = member L this \<sigma>r (v r))"
    using invoke_exit[OF wf inv] by blast
  have rspr: "regs \<sigma>r RSP = regs \<sigma>c RSP + 8"
    and keep: "\<And>f. f \<in> F \<Longrightarrow> member L this \<sigma>r f = member L this \<sigma>c f"
    using rk rspc nr unfolding returns_keeping_def by blast+
  have "regs \<sigma>r RSP = this + word_of_nat (reserved_stack_size L)" using rspr rspc by simp
  hence e: "regs \<sigma>' RSP = member L this \<sigma>r emu_rsp"
    "member L this \<sigma>' emu_rsp = member L this \<sigma>r emu_rsp"
    "\<And>r. regs \<sigma>' (G r) = member L this \<sigma>r (v r)"
    using ex by simp_all
  show "emu_rsp \<in> F \<Longrightarrow> regs \<sigma>' RSP = regs \<sigma> RSP \<and> member L this \<sigma>' emu_rsp = regs \<sigma> RSP"
    by (simp add: e keep sc)
  show "v r \<in> F \<Longrightarrow> regs \<sigma>' (G r) = (if r = rax then regs \<sigma> RSP else regs \<sigma> (G r))"
    by (simp add: e keep mc)
qed

lemma ret_only_returns_keeping:
  assumes "native_code P rp = ret_only"
  shows "returns_keeping P rp L this F"
  using assms by (auto simp add: returns_keeping_def ret_only_def member_def)


lemma ret_only_returns:
  assumes wf: "wf_layout L" and fb: "flags_behind_r15 L" and tf: "tf_faithful P"
    and nt: "\<not> bit (rflags \<sigma>) 8" and r15: "\<not> bit (regs \<sigma> R15) 8"
    and ro: "native_code P rp = ret_only"
  shows "\<exists>\<sigma>'. invoke P L this rp \<sigma> = Some \<sigma>'"
  using wf fb tf nt r15
  by (rule invoke_returns) (simp add: ro ret_only_def member_def)




lemma invoke_home_spill:
  assumes wf: "wf_layout L" and code: "native_code P rp = home_spill"
    and first: "offset_of L emu_rsp = reserved_stack_size L"
    and inv: "invoke P L this rp \<sigma> = Some \<sigma>'"
  shows "regs \<sigma>' RSP = member L this \<sigma> v_rcx"
proof -
  obtain \<sigma>c \<sigma>r where nr: "native_code P rp \<sigma>c = Some \<sigma>r"
    and rspc: "regs \<sigma>c RSP = this + word_of_nat (reserved_stack_size L) - 8"
    and gc: "\<And>r. regs \<sigma>c (G r) = member L this \<sigma> (v r)"
    and ex: "regs \<sigma>r RSP = this + word_of_nat (reserved_stack_size L) \<longrightarrow>
              regs \<sigma>' RSP = member L this \<sigma>r emu_rsp"
    using invoke_exit[OF wf inv] by blast
  have r: "\<sigma>r = \<sigma>c\<lparr>mem := store64 (mem \<sigma>c) (regs \<sigma>c RSP + 8) (regs \<sigma>c RCX),
                     regs := (regs \<sigma>c)(RSP := regs \<sigma>c RSP + 8)\<rparr>"
    using nr by (simp add: code home_spill_def)
  have ad: "regs \<sigma>c RSP + 8 = this + word_of_nat (offset_of L emu_rsp)"
    by (simp add: rspc first)
  have "regs \<sigma>r RSP = this + word_of_nat (reserved_stack_size L)" by (simp add: r rspc)
  hence "regs \<sigma>' RSP = member L this \<sigma>r emu_rsp" using ex by simp
  also have "\<dots> = regs \<sigma>c RCX"
    by (simp add: r member_def ad load_member_store_member[OF wf])
  finally show ?thesis by (simp add: gc)
qed

lemma home_spill_returns:
  assumes wf: "wf_layout L" and fb: "flags_behind_r15 L" and tf: "tf_faithful P"
    and nt: "\<not> bit (rflags \<sigma>) 8" and r15: "\<not> bit (regs \<sigma> R15) 8"
    and code: "native_code P rp = home_spill"
    and first: "offset_of L emu_rsp = reserved_stack_size L"
  shows "\<exists>\<sigma>'. invoke P L this rp \<sigma> = Some \<sigma>'"
  using wf fb tf nt r15
proof (rule invoke_returns)
  fix \<sigma>c :: machine
  assume rspc: "regs \<sigma>c RSP = this + word_of_nat (reserved_stack_size L) - 8"
    and ntc: "\<not> bit (rflags \<sigma>c) 8"
  have ad: "regs \<sigma>c RSP + 8 = this + word_of_nat (offset_of L emu_rsp)"
    by (simp add: rspc first)
  show "\<exists>\<sigma>r. native_code P rp \<sigma>c = Some \<sigma>r \<and> regs \<sigma>r RSP = regs \<sigma>c RSP + 8 \<and>
             \<not> bit (rflags \<sigma>r) 8 \<and> member L this \<sigma>r v_r15 = member L this \<sigma>c v_r15"
    using ntc by (simp add: code home_spill_def member_def ad load_member_store_member[OF wf])
qed

lemma example_platforms_tf:
  "tf_faithful ret_only_platform" "tf_faithful add_platform" "tf_faithful spill_platform"
  by (simp_all add: ret_only_platform_def add_platform_def spill_platform_def tf_faithful_example)

lemma example_platforms_code:
  "native_code ret_only_platform rp = ret_only"
  "native_code add_platform rp = add_routine (add_flags add_platform) rax rcx rdx"
  "native_code spill_platform rp = home_spill"
  by (simp_all add: ret_only_platform_def add_platform_def spill_platform_def example_platform_def)

text \<open>
  On the example layout the run from \<open>trapping_state\<close> never reaches the routine: the flags
  that line 50 loads are the caller's \<^verbatim>\<open>r15\<close>, \<open>0x10E\<close>, and have TF set.
\<close>

lemma invoke_trapping_state:
  "invoke ret_only_platform example_layout 0x1000 0x400000 trapping_state = None"
  by (rule invoke_trapped[OF wf_example_layout flags_behind_r15_example example_platforms_tf(1)])
    (simp_all add: trapping_state_def example_state_def)

section \<open>The claims about \<^verbatim>\<open>invoke\<close>\<close>

text \<open>
  Claim C4, as the code has it. The claim as stated (after \<^verbatim>\<open>invoke\<close> returns, each of the
  fifteen general-purpose hardware registers and the flags hold their values from before
  the call) fails for \<^verbatim>\<open>rax\<close>: the block moves \<^verbatim>\<open>rsp\<close> into \<^verbatim>\<open>rax\<close> before it exchanges \<^verbatim>\<open>rax\<close>
  with its slot, so the second exchange brings back the old stack pointer. With the
  routine that only returns, from a state with \<^verbatim>\<open>rax = 1\<close> and \<^verbatim>\<open>rsp = 0x7000\<close>, \<^verbatim>\<open>invoke\<close>
  returns with \<open>0x7000\<close> in the hardware \<^verbatim>\<open>rax\<close>.
\<close>

theorem invoke_rax_not_restored:
  "regs example_state RAX = 1 \<and>
   reg_after RAX (invoke ret_only_platform example_layout 0x1000 0x400000 example_state) = Some 0x7000"
proof -
  have rk: "returns_keeping ret_only_platform 0x400000 example_layout 0x1000 (range v)"
    by (rule ret_only_returns_keeping) (rule example_platforms_code)
  obtain \<sigma>' where i:
    "invoke ret_only_platform example_layout 0x1000 0x400000 example_state = Some \<sigma>'"
    using ret_only_returns[OF wf_example_layout flags_behind_r15_example example_platforms_tf(1)
        example_state_clear(1,2) example_platforms_code(1)]
    by blast
  have "regs \<sigma>' RAX = regs example_state RSP"
    using invoke_well_behaved(2)[OF wf_example_layout rk i, of rax] by simp
  thus ?thesis by (simp add: i reg_after_def example_state_clear)
qed

text \<open>
  Claim C4, amended. For every starting state and every routine that, when it returns,
  has popped exactly its return address and has left the fifteen general-purpose slots of
  the object as they were: after \<^verbatim>\<open>invoke\<close> returns, each of the fourteen general-purpose
  hardware registers other than \<^verbatim>\<open>rax\<close> holds exactly its value from before the call, and
  \<^verbatim>\<open>rax\<close> holds the stack pointer from before the call. Nothing is said about the flags.
\<close>

theorem invoke_restores_all_but_rax:
  assumes "wf_layout L" and "returns_keeping P rp L this (range v)"
    and "invoke P L this rp \<sigma> = Some \<sigma>'"
  shows "(\<forall>r. r \<noteq> rax \<longrightarrow> regs \<sigma>' (G r) = regs \<sigma> (G r)) \<and> regs \<sigma>' RAX = regs \<sigma> RSP"
proof -
  have "regs \<sigma>' (G r) = (if r = rax then regs \<sigma> RSP else regs \<sigma> (G r))" for r
    using invoke_well_behaved(2)[OF assms, of r] by simp
  thus ?thesis by simp
qed

theorem invoke_restores_all_but_rax_witness:
  "wf_layout example_layout \<and>
   returns_keeping ret_only_platform 0x400000 example_layout 0x1000 (range v) \<and>
   (\<exists>\<sigma>'. invoke ret_only_platform example_layout 0x1000 0x400000 example_state = Some \<sigma>' \<and>
      (\<forall>r. r \<noteq> rax \<longrightarrow> regs \<sigma>' (G r) = regs example_state (G r)) \<and>
      regs \<sigma>' RAX = regs example_state RSP)"
proof -
  have rk: "returns_keeping ret_only_platform 0x400000 example_layout 0x1000 (range v)"
    by (rule ret_only_returns_keeping) (rule example_platforms_code)
  obtain \<sigma>' where i:
    "invoke ret_only_platform example_layout 0x1000 0x400000 example_state = Some \<sigma>'"
    using ret_only_returns[OF wf_example_layout flags_behind_r15_example example_platforms_tf(1)
        example_state_clear(1,2) example_platforms_code(1)]
    by blast
  show ?thesis
    using invoke_restores_all_but_rax[OF wf_example_layout rk i] wf_example_layout rk i
    by blast
qed



text \<open>
  Claim C6, as the code has it. The claim as stated (for every invocation, the stack
  pointer after \<^verbatim>\<open>invoke\<close> returns is the one from before the call) fails for a routine that
  returns normally but writes the slot \<^verbatim>\<open>__rsp\<close>. On the example layout that slot lies right
  above the return address, where the home slot of the first argument is: the routine
  \<^verbatim>\<open>mov [rsp + 8], rcx; ret\<close>, invoked with 3 in \<^verbatim>\<open>v_rcx\<close> and the stack pointer at \<open>0x7000\<close>,
  leaves 3 in the stack pointer.
\<close>

theorem invoke_home_spill_loses_stack_pointer:
  "regs spill_state RSP = 0x7000 \<and>
   reg_after RSP (invoke spill_platform example_layout 0x1000 0x400000 spill_state) = Some 3"
proof -
  have st: "\<not> bit (rflags spill_state) 8" "\<not> bit (regs spill_state R15) 8"
    "regs spill_state RSP = 0x7000"
    by (simp_all add: spill_state_def example_state_clear)
  have first: "offset_of example_layout emu_rsp = reserved_stack_size example_layout"
    by (simp add: example_layout_def)
  have rcx: "member example_layout 0x1000 spill_state v_rcx = 3"
    by (simp add: spill_state_def member_def load_member_store_member[OF wf_example_layout])
  obtain \<sigma>' where i:
    "invoke spill_platform example_layout 0x1000 0x400000 spill_state = Some \<sigma>'"
    using home_spill_returns[OF wf_example_layout flags_behind_r15_example example_platforms_tf(3)
        st(1,2) example_platforms_code(3) first]
    by blast
  have "regs \<sigma>' RSP = 3"
    using invoke_home_spill[OF wf_example_layout example_platforms_code(3) first i] rcx by simp
  thus ?thesis by (simp add: i reg_after_def st)
qed

text \<open>
  Claim C6, amended. For every invocation of a routine that, when it returns, has popped
  exactly its return address and has left the saved-stack-pointer slot as it was: after
  \<^verbatim>\<open>invoke\<close> returns, the hardware stack pointer is exactly the one from before the call; it
  was saved in the slot \<^verbatim>\<open>__rsp\<close>, which still holds it, and restored from there.
\<close>

theorem invoke_restores_stack_pointer:
  assumes "wf_layout L" and "returns_keeping P rp L this {emu_rsp}"
    and "invoke P L this rp \<sigma> = Some \<sigma>'"
  shows "regs \<sigma>' RSP = regs \<sigma> RSP \<and> member L this \<sigma>' emu_rsp = regs \<sigma> RSP"
  using invoke_well_behaved(1)[OF assms] by simp

theorem invoke_restores_stack_pointer_witness:
  "wf_layout example_layout \<and>
   returns_keeping ret_only_platform 0x400000 example_layout 0x1000 {emu_rsp} \<and>
   regs example_state RSP = 0x7000 \<and>
   (\<exists>\<sigma>'. invoke ret_only_platform example_layout 0x1000 0x400000 example_state = Some \<sigma>' \<and>
      regs \<sigma>' RSP = 0x7000 \<and> member example_layout 0x1000 \<sigma>' emu_rsp = 0x7000)"
proof -
  have rk: "returns_keeping ret_only_platform 0x400000 example_layout 0x1000 {emu_rsp}"
    by (rule ret_only_returns_keeping) (rule example_platforms_code)
  obtain \<sigma>' where i:
    "invoke ret_only_platform example_layout 0x1000 0x400000 example_state = Some \<sigma>'"
    using ret_only_returns[OF wf_example_layout flags_behind_r15_example example_platforms_tf(1)
        example_state_clear(1,2) example_platforms_code(1)]
    by blast
  show ?thesis
    using invoke_restores_stack_pointer[OF wf_example_layout rk i] wf_example_layout rk i
    unfolding example_state_clear(3) by blast
qed



section \<open>Properties of the hash\<close>

lemma split_base: "lo < B \<Longrightarrow> (B * x + lo) mod (B * B) = B * (x mod B) + (lo::nat)"
proof -
  assume lo: "lo < B"
  have d: "(B * x + lo) div B = x" using lo by simp
  have m: "(B * x + lo) mod B = lo" using lo by simp
  have "(B * x + lo) mod (B * B) = B * ((B * x + lo) div B mod B) + (B * x + lo) mod B"
    by (rule mod_mult2_eq)
  thus ?thesis by (simp only: d m)
qed

lemma umul128_nat: "umul128 a b = (lo, hi) \<Longrightarrow> 2^64 * unat hi + unat lo = unat a * unat b"
proof -
  assume h: "umul128 a b = (lo, hi)"
  define B where "B = (2::nat)^64"
  let ?p = "unat a * unat b"
  have ua: "unat a < B" and ub: "unat b < B" using unsigned_less[of a] unsigned_less[of b] by (simp_all add: B_def)
  have "?p < B * B" using ua ub by (rule mult_strict_mono') simp_all
  hence pd: "?p div B < B" by (simp add: less_mult_imp_div_less)
  have "lo = word_of_nat ?p" "hi = word_of_nat (?p div 2 ^ 64)"
    using h by (simp_all add: umul128_def Let_def)
  hence lo: "unat lo = ?p mod B" and "unat hi = (?p div B) mod B"
    unfolding B_def by (simp_all only: unat_of_nat) simp_all
  hence hi: "unat hi = ?p div B" using pd by simp
  have "B * unat hi + unat lo = ?p" unfolding lo hi by simp
  thus ?thesis by (simp add: B_def)
qed

lemma hash_byte_mult: "as_nat128 (hash_byte (h0, h1) b) = (as_nat128 (h0, h1 XOR ucast b) * as_nat128 prime) mod 2 ^ 128"
proof -
  define B where "B = (2::nat)^64"
  define la where "la = h1 XOR ucast b"
  define ha lb hb where "ha = unat h0" and "lb = unat (snd prime)" and "hb = unat (fst prime)"
  obtain lo hi where u: "umul128 la (snd prime) = (lo, hi)" by (cases "umul128 la (snd prime)")
  have p: "B * unat hi + unat lo = unat la * lb" using umul128_nat[OF u] by (simp add: B_def lb_def)
  have hbyte: "hash_byte (h0, h1) b = (hi + h0 * snd prime + la * fst prime, lo)"
    using u by (simp add: hash_byte_def Let_def la_def)
  have lo64: "unat lo < B" using unsigned_less[of lo] by (simp add: B_def)
  have "unat (hi + h0 * snd prime + la * fst prime) = (unat hi + unat h0 * unat (snd prime) + unat la * unat (fst prime)) mod 2^64"
    by (simp add: unat_word_ariths mod_simps)
  hence v0: "unat (hi + h0 * snd prime + la * fst prime) = (unat hi + ha * lb + unat la * hb) mod B"
    by (simp add: B_def ha_def lb_def hb_def)
  have "(B * ha + unat la) * (B * hb + lb)
      = B * (unat hi + ha * lb + unat la * hb) + unat lo + B * B * (ha * hb)"
    using p by (simp add: algebra_simps)
  hence "((B * ha + unat la) * (B * hb + lb)) mod (B * B)
      = (B * (unat hi + ha * lb + unat la * hb) + unat lo) mod (B * B)"
    by simp
  also have "\<dots> = B * ((unat hi + ha * lb + unat la * hb) mod B) + unat lo"
    by (rule split_base[OF lo64])
  finally have main: "((B * ha + unat la) * (B * hb + lb)) mod (B * B) = B * unat (hi + h0 * snd prime + la * fst prime) + unat lo"
    by (simp add: v0)
  have "(2::nat) ^ (64 + 64) = 2 ^ 64 * 2 ^ 64" by (rule power_add)
  hence BB: "B * B = 2 ^ 128" by (simp only: B_def) simp
  have an: "as_nat128 x = B * unat (fst x) + unat (snd x)" for x
    unfolding as_nat128_def B_def ..
  show ?thesis
    unfolding hbyte la_def[symmetric] an fst_conv snd_conv BB[symmetric]
    using main unfolding ha_def hb_def lb_def by (rule sym)
qed

text \<open>
  Claim C10. With the state \<open>(h0, h1)\<close> read as the 128-bit integer \<open>h0 * 2^64 + h1\<close>, one
  round of \<^verbatim>\<open>operator<<\<close> for the byte \<open>b\<close> gives exactly
  \<open>((h0 * 2^64 + (h1 XOR b)) * (0x1000000 * 2^64 + 0x13B)) mod 2^128\<close>: the low product of
  \<^verbatim>\<open>_umul128\<close> and the two cross products added into the high word are the full
  multiplication modulo \<open>2^128\<close>.
\<close>

theorem hash_byte_is_mult_mod_2_128:
  "as_nat128 (hash_byte (h0, h1) b) =
     ((unat h0 * 2 ^ 64 + unat (h1 XOR ucast b)) * (0x0000000001000000 * 2 ^ 64 + 0x000000000000013B))
       mod 2 ^ 128"
proof -
  have p: "as_nat128 prime = 0x0000000001000000 * 2 ^ 64 + 0x000000000000013B"
    by (simp add: as_nat128_def prime_def)
  have a: "as_nat128 (h0, h1 XOR ucast b) = unat h0 * 2 ^ 64 + unat (h1 XOR ucast b)"
    by (simp add: as_nat128_def)
  show ?thesis
    unfolding hash_byte_mult p a ..
qed

end
